theory Spec2Isabelle
  imports Main "HOL-Library.Sublist" "HOL-Library.List_Lexorder" "HOL-Library.Char_ord" "HOL-Library.Multiset"
begin

section \<open>Python values used by \<^verbatim>\<open>stub_package.py\<close>\<close>

text \<open>
  Python strings are modelled as \<^typ>\<open>string\<close>, one \<^typ>\<open>char\<close> per code point
  (code points below 256). Exceptions are values of \<open>py_error\<close>; a function that may
  raise returns \<open>py_error + 'a\<close> with \<open>Inl\<close> for the exception.
\<close>

datatype py_error = IndexError | AttributeError | SyntaxError | OSError

definition NL :: char where
  "NL = CHR 0x0A"

definition DQ :: char where
  "DQ = CHR 0x22"

definition TQ :: string where
  "TQ = [DQ, DQ, DQ]"

text \<open>
  \<^verbatim>\<open>xs[i]\<close> on a Python list: an index below \<open>- len(xs)\<close> or from \<open>len(xs)\<close> on raises,
  a negative index counts from the end.
\<close>

definition getitem :: "'a list \<Rightarrow> int \<Rightarrow> py_error + 'a" where
  "getitem xs i =
     (if i < - int (length xs) \<or> int (length xs) \<le> i then Inl IndexError
      else if i < 0 then Inr (xs ! nat (int (length xs) + i))
      else Inr (xs ! nat i))"

text \<open>\<^verbatim>\<open>sep.join(parts)\<close>.\<close>

fun join :: "string \<Rightarrow> string list \<Rightarrow> string" where
  "join sep [] = []"
| "join sep [x] = x"
| "join sep (x # y # ys) = x @ sep @ join sep (y # ys)"

text \<open>\<^verbatim>\<open>s.startswith(p)\<close> and \<^verbatim>\<open>s.endswith(p)\<close>.\<close>

definition startswith :: "string \<Rightarrow> string \<Rightarrow> bool" where
  "startswith s p = (take (length p) s = p)"

definition endswith :: "string \<Rightarrow> string \<Rightarrow> bool" where
  "endswith s p = (length p \<le> length s \<and> drop (length s - length p) s = p)"

text \<open>
  \<^verbatim>\<open>str.isspace\<close> on one character, for code points below 256: the ASCII white space
  characters, the four separators \<^verbatim>\<open>\x1c\<close> to \<^verbatim>\<open>\x1f\<close>, NEL and the no-break space.
\<close>

definition isspace :: "char \<Rightarrow> bool" where
  "isspace c = (of_char c \<in> {9, 10, 11, 12, 13, 28, 29, 30, 31, 32, 133, 160 :: nat})"

definition rstrip :: "string \<Rightarrow> string" where
  "rstrip s = rev (dropWhile isspace (rev s))"

definition strip :: "string \<Rightarrow> string" where
  "strip s = dropWhile isspace (rstrip s)"

text \<open>\<^verbatim>\<open>s.split("\n")\<close>: never empty, keeps empty pieces.\<close>

fun split_nl :: "string \<Rightarrow> string list" where
  "split_nl [] = [[]]"
| "split_nl (c # cs) =
     (if c = NL then [] # split_nl cs
      else (let r = split_nl cs in (c # hd r) # tl r))"

text \<open>\<^verbatim>\<open>str(n)\<close> for an integer.\<close>

fun digits :: "nat \<Rightarrow> string" where
  "digits n =
     (if n < 10 then [char_of (48 + n)]
      else digits (n div 10) @ [char_of (48 + n mod 10)])"

declare digits.simps [simp del]

definition str_int :: "int \<Rightarrow> string" where
  "str_int i = (if i < 0 then CHR ''-'' # digits (nat (- i)) else digits (nat i))"

section \<open>The syntax tree\<close>

text \<open>
  Expression nodes and the simple statements that the program only ever re-serialises are
  opaque values of a type \<open>'n\<close>. The parser's services are parameters:
  \<open>unparse\<close> is \<^verbatim>\<open>ast.unparse\<close> and \<open>segment\<close> is \<^verbatim>\<open>ast.get_source_segment\<close>.
\<close>

record 'n ast_arg =
  arg :: string
  annotation :: "'n option"

record 'n arguments =
  posonlyargs :: "'n ast_arg list"
  args :: "'n ast_arg list"
  vararg :: "'n ast_arg option"
  kwonlyargs :: "'n ast_arg list"
  kw_defaults :: "'n option list"
  kwarg :: "'n ast_arg option"
  defaults :: "'n list"

text \<open>
  Statements, by the node kinds the program distinguishes. \<open>ExprStr n v\<close> is an
  \<^verbatim>\<open>ast.Expr\<close> whose value is a string constant \<open>v\<close>. \<open>FunctionDef\<close> carries the
  async flag, name, first and last line, decorators, parameters, return annotation and body;
  \<open>ClassDef\<close> carries name, first and last line, decorators, bases, keywords and body.
\<close>

datatype 'n stmt =
    ExprStr 'n string
  | Import 'n
  | Assign 'n
  | AnnAssign 'n
  | FunctionDef bool string int int "'n list" "'n arguments" "'n option" "'n stmt list"
  | ClassDef string int int "'n list" "'n list" "(string option \<times> 'n) list" "'n stmt list"
  | OtherStmt 'n

section \<open>Signature Reconstructor: \<^verbatim>\<open>format_arguments\<close>\<close>

text \<open>The first loop, over \<^verbatim>\<open>enumerate(all_pos)\<close>; \<open>i\<close> is the running index.\<close>

fun pos_loop ::
  "('n \<Rightarrow> string) \<Rightarrow> 'n arguments \<Rightarrow> nat \<Rightarrow> 'n ast_arg list \<Rightarrow> string list
     \<Rightarrow> py_error + string list" where
  "pos_loop unparse node i [] parts = Inr parts"
| "pos_loop unparse node i (a # rest) parts =
     (let num_posonly = int (length (posonlyargs node));
          all_pos = posonlyargs node @ args node;
          num_defaults = int (length (defaults node));
          num_pos = int (length all_pos);
          s = arg a;
          s = (case annotation a of Some ann \<Rightarrow> s @ '': '' @ unparse ann | None \<Rightarrow> s);
          default_idx = int i - (num_pos - num_defaults)
      in case (if default_idx \<ge> 0
               then (case getitem (defaults node) default_idx of
                       Inl e \<Rightarrow> Inl e
                     | Inr d \<Rightarrow> Inr (s @ '' = '' @ unparse d))
               else Inr s) of
           Inl e \<Rightarrow> Inl e
         | Inr s \<Rightarrow>
             (let parts = parts @ [s];
                  parts = (if int i = num_posonly - 1 \<and> num_posonly > 0
                           then parts @ [''/''] else parts)
              in pos_loop unparse node (Suc i) rest parts))"

text \<open>The second loop, over \<^verbatim>\<open>enumerate(node.kwonlyargs)\<close>.\<close>

fun kw_loop ::
  "('n \<Rightarrow> string) \<Rightarrow> 'n arguments \<Rightarrow> nat \<Rightarrow> 'n ast_arg list \<Rightarrow> string list
     \<Rightarrow> py_error + string list" where
  "kw_loop unparse node i [] parts = Inr parts"
| "kw_loop unparse node i (a # rest) parts =
     (let s = arg a;
          s = (case annotation a of Some ann \<Rightarrow> s @ '': '' @ unparse ann | None \<Rightarrow> s)
      in case getitem (kw_defaults node) (int i) of
           Inl e \<Rightarrow> Inl e
         | Inr dflt \<Rightarrow>
             (let s = (case dflt of Some d \<Rightarrow> s @ '' = '' @ unparse d | None \<Rightarrow> s)
              in kw_loop unparse node (Suc i) rest (parts @ [s])))"

text \<open>The list \<^verbatim>\<open>parts\<close> as it stands at the \<^verbatim>\<open>return\<close>.\<close>

definition format_parts :: "('n \<Rightarrow> string) \<Rightarrow> 'n arguments \<Rightarrow> py_error + string list" where
  "format_parts unparse node =
     (case pos_loop unparse node 0 (posonlyargs node @ args node) [] of
        Inl e \<Rightarrow> Inl e
      | Inr parts \<Rightarrow>
          (let parts =
                 (case vararg node of
                    Some v \<Rightarrow>
                      (let s = ''*'' @ arg v;
                           s = (case annotation v of
                                  Some ann \<Rightarrow> s @ '': '' @ unparse ann | None \<Rightarrow> s)
                       in parts @ [s])
                  | None \<Rightarrow> (if kwonlyargs node \<noteq> [] then parts @ [''*''] else parts))
           in case kw_loop unparse node 0 (kwonlyargs node) parts of
                Inl e \<Rightarrow> Inl e
              | Inr parts \<Rightarrow>
                  Inr (case kwarg node of
                         Some k \<Rightarrow>
                           (let s = ''**'' @ arg k;
                                s = (case annotation k of
                                       Some ann \<Rightarrow> s @ '': '' @ unparse ann | None \<Rightarrow> s)
                            in parts @ [s])
                       | None \<Rightarrow> parts)))"

definition format_arguments :: "('n \<Rightarrow> string) \<Rightarrow> 'n arguments \<Rightarrow> py_error + string" where
  "format_arguments unparse node =
     (case format_parts unparse node of
        Inl e \<Rightarrow> Inl e
      | Inr parts \<Rightarrow> Inr (join '', '' parts))"

section \<open>Docstrings: \<^verbatim>\<open>get_docstring\<close> and \<^verbatim>\<open>_format_docstring\<close>\<close>

fun get_docstring :: "'n stmt list \<Rightarrow> string option" where
  "get_docstring (ExprStr n v # rest) = Some v"
| "get_docstring body = None"

text \<open>The loop over \<^verbatim>\<open>lines[1:]\<close>, with \<open>result\<close> as its accumulator.\<close>

fun docstring_loop :: "string \<Rightarrow> string list \<Rightarrow> string \<Rightarrow> string" where
  "docstring_loop indent [] result = result"
| "docstring_loop indent (line # rest) result =
     docstring_loop indent rest
       (if strip line \<noteq> [] then result @ indent @ line @ [NL] else result @ [NL])"

definition format_docstring :: "string \<Rightarrow> string \<Rightarrow> string" where
  "format_docstring doc indent =
     (let lines = split_nl doc
      in if length lines = 1 then indent @ TQ @ doc @ TQ @ [NL]
         else (let result = indent @ TQ @ hd lines @ [NL];
                   result = docstring_loop indent (tl lines) result;
                   result = (if \<not> endswith (rstrip result) TQ
                             then result @ indent @ TQ @ [NL] else result)
               in result))"

section \<open>Declaration Renderer: \<^verbatim>\<open>stub_function\<close>, \<^verbatim>\<open>stub_class\<close>, \<^verbatim>\<open>_is_private\<close>\<close>

definition is_private :: "string \<Rightarrow> bool" where
  "is_private name =
     (startswith name ''_'' \<and> \<not> (startswith name ''__'' \<and> endswith name ''__''))"

text \<open>The list \<^verbatim>\<open>lines\<close> of \<^verbatim>\<open>stub_function\<close> as it stands at the \<^verbatim>\<open>return\<close>.\<close>

fun stub_function_lines ::
  "('n \<Rightarrow> string) \<Rightarrow> 'n stmt \<Rightarrow> string \<Rightarrow> string \<Rightarrow> bool \<Rightarrow> py_error + string list" where
  "stub_function_lines unparse
       (FunctionDef is_async name lineno end_lineno decorator_list fargs returns body)
       source_file indent include_docstrings =
     (let lines = [indent @ ''# '' @ source_file @ '':'' @ str_int lineno @ ''-'' @
                   str_int end_lineno];
          lines = lines @ map (\<lambda>dec. indent @ ''@'' @ unparse dec) decorator_list;
          async_prefix = (if is_async then ''async '' else [])
      in case format_arguments unparse fargs of
           Inl e \<Rightarrow> Inl e
         | Inr sig \<Rightarrow>
             (let ret = (case returns of Some r \<Rightarrow> '' -> '' @ unparse r | None \<Rightarrow> []);
                  lines = lines @
                    [indent @ async_prefix @ ''def '' @ name @ ''('' @ sig @ '')'' @ ret @ '':''];
                  body_indent = indent @ ''    '';
                  doc = (if include_docstrings then get_docstring body else None);
                  lines = (case doc of
                             Some d \<Rightarrow>
                               (if d \<noteq> [] then lines @ [rstrip (format_docstring d body_indent)]
                                else lines)
                           | None \<Rightarrow> lines);
                  lines = lines @ [body_indent @ ''...'']
              in Inr lines))"
| "stub_function_lines unparse node source_file indent include_docstrings = Inl AttributeError"

definition stub_function ::
  "('n \<Rightarrow> string) \<Rightarrow> 'n stmt \<Rightarrow> string \<Rightarrow> string \<Rightarrow> bool \<Rightarrow> py_error + string" where
  "stub_function unparse node source_file indent include_docstrings =
     (case stub_function_lines unparse node source_file indent include_docstrings of
        Inl e \<Rightarrow> Inl e
      | Inr lines \<Rightarrow> Inr (join [NL] lines))"

text \<open>
  \<^verbatim>\<open>segment\<close> if it is a non-empty string, \<^verbatim>\<open>ast.unparse\<close> of the node otherwise: the
  fallback the program writes out at every use of \<^verbatim>\<open>ast.get_source_segment\<close>.
\<close>

definition segment_or_unparse ::
  "('n \<Rightarrow> string) \<Rightarrow> (string \<Rightarrow> 'n \<Rightarrow> string option) \<Rightarrow> string \<Rightarrow> 'n \<Rightarrow> string" where
  "segment_or_unparse unparse get_source_segment source n =
     (case get_source_segment source n of
        Some segment \<Rightarrow> (if segment \<noteq> [] then segment else unparse n)
      | None \<Rightarrow> unparse n)"

text \<open>
  The part of \<^verbatim>\<open>stub_class\<close> before its loop, on the fields of the class node: the
  location comment, the decorators, the class line and the docstring. It yields the pair
  \<^verbatim>\<open>(lines, has_content)\<close> with which the loop starts.
\<close>

definition class_header ::
  "('n \<Rightarrow> string) \<Rightarrow> string \<Rightarrow> int \<Rightarrow> int \<Rightarrow> 'n list \<Rightarrow> 'n list \<Rightarrow> (string option \<times> 'n) list
     \<Rightarrow> 'n stmt list \<Rightarrow> string \<Rightarrow> string \<Rightarrow> bool \<Rightarrow> string list \<times> bool" where
  "class_header unparse name lineno end_lineno decorator_list bases keywords body
       source_file indent include_docstrings =
     (let lines = [indent @ ''# '' @ source_file @ '':'' @ str_int lineno @ ''-'' @
                   str_int end_lineno];
          lines = lines @ map (\<lambda>dec. indent @ ''@'' @ unparse dec) decorator_list;
          bases' = map unparse bases @
            map (\<lambda>(kw_arg, kw_value).
                   (case kw_arg of
                      Some a \<Rightarrow> (if a \<noteq> [] then a @ ''='' @ unparse kw_value
                                 else ''**'' @ unparse kw_value)
                    | None \<Rightarrow> ''**'' @ unparse kw_value)) keywords;
          base_str = (if bases' \<noteq> [] then ''('' @ join '', '' bases' @ '')'' else []);
          lines = lines @ [indent @ ''class '' @ name @ base_str @ '':''];
          body_indent = indent @ ''    '';
          doc = (if include_docstrings then get_docstring body else None)
      in case doc of
           Some d \<Rightarrow>
             (if d \<noteq> [] then (lines @ [rstrip (format_docstring d body_indent)], True)
              else (lines, False))
         | None \<Rightarrow> (lines, False))"

text \<open>
  \<^verbatim>\<open>stub_class\<close> and its loop over \<^verbatim>\<open>node.body\<close>. The loop state \<open>st\<close> is the pair
  \<^verbatim>\<open>(lines, has_content)\<close>; \<open>first\<close> says that the child is \<^verbatim>\<open>node.body[0]\<close>
  (the nodes of a parsed tree are distinct objects). A string expression that is not the
  first child matches no branch of the loop body.
\<close>

fun stub_class ::
  "('n \<Rightarrow> string) \<Rightarrow> (string \<Rightarrow> 'n \<Rightarrow> string option) \<Rightarrow> 'n stmt \<Rightarrow> string \<Rightarrow> string \<Rightarrow> string
     \<Rightarrow> bool \<Rightarrow> bool \<Rightarrow> py_error + string"
and class_body_loop ::
  "('n \<Rightarrow> string) \<Rightarrow> (string \<Rightarrow> 'n \<Rightarrow> string option) \<Rightarrow> string \<Rightarrow> string \<Rightarrow> string
     \<Rightarrow> bool \<Rightarrow> bool \<Rightarrow> bool \<Rightarrow> 'n stmt list \<Rightarrow> string list \<times> bool
     \<Rightarrow> py_error + string list \<times> bool" where
  "stub_class unparse get_source_segment node source source_file indent
       include_docstrings include_private =
     (case node of
        ClassDef name lineno end_lineno decorator_list bases keywords body \<Rightarrow>
          (case class_body_loop unparse get_source_segment source source_file
                  (indent @ ''    '') include_docstrings include_private True body
                  (class_header unparse name lineno end_lineno decorator_list bases keywords
                     body source_file indent include_docstrings) of
             Inl e \<Rightarrow> Inl e
           | Inr st \<Rightarrow>
               Inr (join [NL]
                      (if \<not> snd st then fst st @ [(indent @ ''    '') @ ''...'']
                       else fst st)))
      | _ \<Rightarrow> Inl AttributeError)"
| "class_body_loop unparse get_source_segment source source_file body_indent
       include_docstrings include_private first [] st = Inr st"
| "class_body_loop unparse get_source_segment source source_file body_indent
       include_docstrings include_private first (child # rest) st =
     (case (case child of
              ExprStr n v \<Rightarrow> (if first then Inr st else Inr st)
            | AnnAssign n \<Rightarrow>
                Inr (fst st @
                       [body_indent @ segment_or_unparse unparse get_source_segment source n],
                     True)
            | Assign n \<Rightarrow>
                Inr (fst st @
                       [body_indent @ segment_or_unparse unparse get_source_segment source n],
                     True)
            | FunctionDef is_async name lineno end_lineno decorator_list fargs returns body \<Rightarrow>
                (if \<not> include_private \<and> is_private name then Inr st
                 else (case stub_function unparse child source_file body_indent
                              include_docstrings of
                         Inl e \<Rightarrow> Inl e
                       | Inr s \<Rightarrow> Inr (fst st @ [[]] @ [s], True)))
            | ClassDef name lineno end_lineno decorator_list bases keywords body \<Rightarrow>
                (if \<not> include_private \<and> is_private name then Inr st
                 else (case stub_class unparse get_source_segment child source source_file
                              body_indent include_docstrings include_private of
                         Inl e \<Rightarrow> Inl e
                       | Inr s \<Rightarrow> Inr (fst st @ [[]] @ [s], True)))
            | Import n \<Rightarrow> Inr st
            | OtherStmt n \<Rightarrow> Inr st) of
        Inl e \<Rightarrow> Inl e
      | Inr st' \<Rightarrow>
          class_body_loop unparse get_source_segment source source_file body_indent
            include_docstrings include_private False rest st')"

declare stub_class.simps [simp del]

section \<open>Module Projector: \<^verbatim>\<open>stub_module\<close>\<close>

text \<open>
  What one top-level node adds to \<^verbatim>\<open>parts\<close>. \<open>first\<close> says that the node is the
  first child of the tree.
\<close>

definition module_node ::
  "('n \<Rightarrow> string) \<Rightarrow> (string \<Rightarrow> 'n \<Rightarrow> string option) \<Rightarrow> string \<Rightarrow> string \<Rightarrow> bool \<Rightarrow> bool
     \<Rightarrow> bool \<Rightarrow> 'n stmt \<Rightarrow> py_error + string list" where
  "module_node unparse get_source_segment source source_file include_docstrings
       include_private first node =
     (case node of
        ExprStr n v \<Rightarrow>
          (if first
           then (if include_docstrings
                 then (case get_source_segment source n of
                         Some segment \<Rightarrow>
                           (if segment \<noteq> [] then Inr [segment] else Inr [TQ @ v @ TQ])
                       | None \<Rightarrow> Inr [TQ @ v @ TQ])
                 else Inr [])
           else Inr [])
      | Import n \<Rightarrow> Inr [segment_or_unparse unparse get_source_segment source n]
      | Assign n \<Rightarrow> Inr [segment_or_unparse unparse get_source_segment source n]
      | AnnAssign n \<Rightarrow> Inr [segment_or_unparse unparse get_source_segment source n]
      | FunctionDef is_async name lineno end_lineno decorator_list fargs returns body \<Rightarrow>
          (if \<not> include_private \<and> is_private name then Inr []
           else (case stub_function unparse node source_file [] include_docstrings of
                   Inl e \<Rightarrow> Inl e
                 | Inr s \<Rightarrow> Inr [s]))
      | ClassDef name lineno end_lineno decorator_list bases keywords body \<Rightarrow>
          (if \<not> include_private \<and> is_private name then Inr []
           else (case stub_class unparse get_source_segment node source source_file []
                        include_docstrings include_private of
                   Inl e \<Rightarrow> Inl e
                 | Inr s \<Rightarrow> Inr [s]))
      | OtherStmt n \<Rightarrow> Inr [])"

fun module_loop ::
  "('n \<Rightarrow> string) \<Rightarrow> (string \<Rightarrow> 'n \<Rightarrow> string option) \<Rightarrow> string \<Rightarrow> string \<Rightarrow> bool \<Rightarrow> bool
     \<Rightarrow> bool \<Rightarrow> 'n stmt list \<Rightarrow> string list \<Rightarrow> py_error + string list" where
  "module_loop unparse get_source_segment source source_file include_docstrings
       include_private first [] parts = Inr parts"
| "module_loop unparse get_source_segment source source_file include_docstrings
       include_private first (node # rest) parts =
     (case module_node unparse get_source_segment source source_file include_docstrings
             include_private first node of
        Inl e \<Rightarrow> Inl e
      | Inr new \<Rightarrow>
          module_loop unparse get_source_segment source source_file include_docstrings
            include_private False rest (parts @ new))"

text \<open>\<open>parse\<close> is \<^verbatim>\<open>ast.parse\<close> followed by \<^verbatim>\<open>ast.iter_child_nodes\<close>.\<close>

definition stub_module ::
  "(string \<Rightarrow> py_error + 'n stmt list) \<Rightarrow> ('n \<Rightarrow> string) \<Rightarrow> (string \<Rightarrow> 'n \<Rightarrow> string option)
     \<Rightarrow> string \<Rightarrow> string \<Rightarrow> bool \<Rightarrow> bool \<Rightarrow> py_error + string" where
  "stub_module parse unparse get_source_segment source source_file include_docstrings
       include_private =
     (case parse source of
        Inl e \<Rightarrow> Inl e
      | Inr tree \<Rightarrow>
          (case module_loop unparse get_source_segment source source_file include_docstrings
                  include_private True tree [] of
             Inl e \<Rightarrow> Inl e
           | Inr parts \<Rightarrow> Inr (join [NL, NL] parts)))"

section \<open>Tree Walker: \<^verbatim>\<open>_sort_key\<close> and \<^verbatim>\<open>stub_package\<close>\<close>

text \<open>
  A path below the root is the list of its components, \<^verbatim>\<open>path.relative_to(root).parts\<close>.
  Tuples of strings are compared as lists of strings, strings by code point.
\<close>

definition sort_key_path :: "string list \<Rightarrow> py_error + string list" where
  "sort_key_path parts =
     (if parts = [] then Inl IndexError
      else if last parts = ''__init__.py'' then Inr (butlast parts @ [[CHR 0x00]])
      else Inr parts)"

text \<open>
  \<^verbatim>\<open>sorted(files, key=...)\<close>: the key of every element is computed once, in order, and the
  sort is stable.
\<close>

fun keyed :: "string list list \<Rightarrow> py_error + (string list \<times> string list) list" where
  "keyed [] = Inr []"
| "keyed (p # ps) =
     (case sort_key_path p of
        Inl e \<Rightarrow> Inl e
      | Inr k \<Rightarrow> (case keyed ps of Inl e \<Rightarrow> Inl e | Inr kps \<Rightarrow> Inr ((k, p) # kps)))"

definition sorted_py_files :: "string list list \<Rightarrow> py_error + string list list" where
  "sorted_py_files files =
     (case keyed files of
        Inl e \<Rightarrow> Inl e
      | Inr kps \<Rightarrow> Inr (map snd (sort_key fst kps)))"

text \<open>
  The argument of \<^verbatim>\<open>stub_package\<close>: a regular file with its name and the result of
  reading it, or a directory with its name, what \<^verbatim>\<open>rglob("*.py")\<close> yields (components
  below the directory, in the order of the file system) and the result of reading each.
  The name is \<^verbatim>\<open>path.name\<close>: it is empty for a directory that is its own parent (the
  current directory, the root of the file system).
\<close>

datatype fs_path =
    RegularFile string "py_error + string"
  | Directory string "string list list" "string list \<Rightarrow> py_error + string"

text \<open>
  The loop over \<^verbatim>\<open>py_files\<close>; \<open>stub\<close> is \<^verbatim>\<open>stub_module\<close> with the two flags set.
  \<open>rel\<close> is the text of \<^verbatim>\<open>py_file.relative_to(path.parent)\<close>: the components below the
  directory after the directory's name, or alone when that name is empty.
\<close>

fun sections_loop ::
  "(string \<Rightarrow> string \<Rightarrow> py_error + string) \<Rightarrow> string \<Rightarrow> (string list \<Rightarrow> py_error + string)
     \<Rightarrow> string list list \<Rightarrow> string list \<Rightarrow> py_error + string list" where
  "sections_loop stub root read_text [] sections = Inr sections"
| "sections_loop stub root read_text (py_file # rest) sections =
     (let rel = join ''/'' (if root = [] then py_file else root # py_file)
      in case read_text py_file of
           Inl e \<Rightarrow> Inl e
         | Inr source \<Rightarrow>
             (if strip source = [] then sections_loop stub root read_text rest sections
              else (let header = ''# === '' @ rel @ '' ===''
                    in case stub source rel of
                         Inl e \<Rightarrow> Inl e
                       | Inr body \<Rightarrow>
                           (if strip body \<noteq> []
                            then sections_loop stub root read_text rest
                                   (sections @ [header @ [NL, NL] @ body])
                            else sections_loop stub root read_text rest sections))))"

definition stub_package ::
  "(string \<Rightarrow> py_error + 'n stmt list) \<Rightarrow> ('n \<Rightarrow> string) \<Rightarrow> (string \<Rightarrow> 'n \<Rightarrow> string option)
     \<Rightarrow> fs_path \<Rightarrow> bool \<Rightarrow> bool \<Rightarrow> py_error + string" where
  "stub_package parse unparse get_source_segment path include_docstrings include_private =
     (case path of
        RegularFile name text \<Rightarrow>
          (case text of
             Inl e \<Rightarrow> Inl e
           | Inr source \<Rightarrow>
               stub_module parse unparse get_source_segment source name include_docstrings
                 include_private)
      | Directory name found read_text \<Rightarrow>
          (case sorted_py_files found of
             Inl e \<Rightarrow> Inl e
           | Inr py_files \<Rightarrow>
               (case sections_loop
                       (\<lambda>source rel. stub_module parse unparse get_source_segment source rel
                          include_docstrings include_private)
                       name read_text py_files [] of
                  Inl e \<Rightarrow> Inl e
                | Inr sections \<Rightarrow> Inr (join [NL, NL] sections))))"

section \<open>The specification's reading of the signature\<close>

text \<open>
  The definitions of this section are not taken from the program. They say, in the
  specification's terms, what each rendered fragment of a parameter list is; the theorems
  compare them with what \<^verbatim>\<open>format_arguments\<close> computes.
\<close>

text \<open>A parameter's name, followed by \<^verbatim>\<open>: annotation\<close> when it has one.\<close>

definition annotated :: "('n \<Rightarrow> string) \<Rightarrow> 'n ast_arg \<Rightarrow> string" where
  "annotated unparse a =
     arg a @ (case annotation a of Some ann \<Rightarrow> '': '' @ unparse ann | None \<Rightarrow> [])"

text \<open>The combined positional sequence: positional-only, then positional-or-keyword.\<close>

definition all_pos :: "'n arguments \<Rightarrow> 'n ast_arg list" where
  "all_pos node = posonlyargs node @ args node"

text \<open>
  The fragment of the positional parameter \<open>a\<close> at index \<open>i\<close>, with the index of its
  default computed over the integers, and the fragment together with the \<^verbatim>\<open>/\<close> marker
  when \<open>a\<close> is the last positional-only parameter.
\<close>

definition pos_fragment :: "('n \<Rightarrow> string) \<Rightarrow> 'n arguments \<Rightarrow> nat \<Rightarrow> 'n ast_arg \<Rightarrow> string" where
  "pos_fragment unparse node i a =
     (let k = int i - (int (length (posonlyargs node @ args node)) - int (length (defaults node)))
      in annotated unparse a @ (if 0 \<le> k then '' = '' @ unparse (defaults node ! nat k) else []))"

definition pos_items :: "('n \<Rightarrow> string) \<Rightarrow> 'n arguments \<Rightarrow> nat \<Rightarrow> 'n ast_arg \<Rightarrow> string list" where
  "pos_items unparse node i a =
     pos_fragment unparse node i a # (if Suc i = length (posonlyargs node) then [''/''] else [])"

text \<open>The fragment of the keyword-only parameter \<open>a\<close> at index \<open>i\<close>.\<close>

definition kw_fragment :: "('n \<Rightarrow> string) \<Rightarrow> 'n arguments \<Rightarrow> nat \<Rightarrow> 'n ast_arg \<Rightarrow> string" where
  "kw_fragment unparse node i a =
     annotated unparse a @
       (case kw_defaults node ! i of Some d \<Rightarrow> '' = '' @ unparse d | None \<Rightarrow> [])"

text \<open>
  The four groups of fragments, in the order of the specification's rules: the positional
  parameters with the \<^verbatim>\<open>/\<close> marker after the positional-only ones (rules 1 to 4), the
  star fragment (rule 5), the keyword-only parameters (rule 6) and the variadic-keyword
  parameter (rule 7).
\<close>

definition pos_part :: "('n \<Rightarrow> string) \<Rightarrow> 'n arguments \<Rightarrow> string list" where
  "pos_part unparse node =
     map (\<lambda>i. pos_fragment unparse node i (all_pos node ! i)) [0..<length (posonlyargs node)] @
     (if posonlyargs node \<noteq> [] then [''/''] else []) @
     map (\<lambda>i. pos_fragment unparse node i (all_pos node ! i))
       [length (posonlyargs node)..<length (all_pos node)]"

definition star_part :: "('n \<Rightarrow> string) \<Rightarrow> 'n arguments \<Rightarrow> string list" where
  "star_part unparse node =
     (case vararg node of
        Some v \<Rightarrow> [''*'' @ annotated unparse v]
      | None \<Rightarrow> (if kwonlyargs node \<noteq> [] then [''*''] else []))"

definition kw_part :: "('n \<Rightarrow> string) \<Rightarrow> 'n arguments \<Rightarrow> string list" where
  "kw_part unparse node =
     map (\<lambda>i. kw_fragment unparse node i (kwonlyargs node ! i)) [0..<length (kwonlyargs node)]"

definition kwarg_part :: "('n \<Rightarrow> string) \<Rightarrow> 'n arguments \<Rightarrow> string list" where
  "kwarg_part unparse node =
     (case kwarg node of Some k \<Rightarrow> [''**'' @ annotated unparse k] | None \<Rightarrow> [])"

text \<open>
  Rule 2 of the specification in its own words, over the natural numbers: with \<open>n\<close>
  positional parameters and \<open>d\<close> defaults, the parameter at index \<open>i\<close> carries the default
  at index \<open>i - (n - d)\<close> iff \<open>i \<ge> n - d\<close>.
\<close>

definition spec_pos_render :: "('n \<Rightarrow> string) \<Rightarrow> 'n arguments \<Rightarrow> nat \<Rightarrow> string" where
  "spec_pos_render unparse node i =
     (let n = length (all_pos node); d = length (defaults node)
      in annotated unparse (all_pos node ! i) @
         (if n - d \<le> i then '' = '' @ unparse (defaults node ! (i - (n - d))) else []))"

text \<open>
  Where a fragment stands in the list of fragments: the positional parameter at index \<open>i\<close>
  (moved by one when it comes after the \<^verbatim>\<open>/\<close> marker), and the first keyword-only
  parameter.
\<close>

definition pos_index :: "'n arguments \<Rightarrow> nat \<Rightarrow> nat" where
  "pos_index node i =
     (if posonlyargs node \<noteq> [] \<and> length (posonlyargs node) \<le> i then Suc i else i)"

definition kw_offset :: "'n arguments \<Rightarrow> nat" where
  "kw_offset node =
     length (all_pos node) + (if posonlyargs node = [] then 0 else 1) +
     (if vararg node = None \<and> kwonlyargs node = [] then 0 else 1)"

text \<open>
  Parameter names are identifiers. The theorems on the markers need less of them: a name
  is not empty and does not begin with \<^verbatim>\<open>/\<close> or \<^verbatim>\<open>*\<close>.
\<close>

definition name_start_ok :: "string \<Rightarrow> bool" where
  "name_start_ok s = (s \<noteq> [] \<and> hd s \<noteq> CHR ''/'' \<and> hd s \<noteq> CHR ''*'')"

definition param_names :: "'n arguments \<Rightarrow> string list" where
  "param_names node =
     map arg (posonlyargs node) @ map arg (args node) @
     (case vararg node of Some v \<Rightarrow> [arg v] | None \<Rightarrow> []) @
     map arg (kwonlyargs node) @
     (case kwarg node of Some k \<Rightarrow> [arg k] | None \<Rightarrow> [])"

text \<open>
  The parameters of \<^verbatim>\<open>def f(a, /, b: int = 1, c = 2, *, k = 0, **kw)\<close>, with the
  expression nodes given as their own text.
\<close>

definition example_arguments :: "string arguments" where
  "example_arguments =
     \<lparr>posonlyargs = [\<lparr>arg = ''a'', annotation = None\<rparr>],
      args = [\<lparr>arg = ''b'', annotation = Some ''int''\<rparr>, \<lparr>arg = ''c'', annotation = None\<rparr>],
      vararg = None,
      kwonlyargs = [\<lparr>arg = ''k'', annotation = None\<rparr>],
      kw_defaults = [Some ''0''],
      kwarg = Some \<lparr>arg = ''kw'', annotation = None\<rparr>,
      defaults = [''1'', ''2'']\<rparr>"

section \<open>The specification's reading of a function stub\<close>

text \<open>
  The lines of a function stub before the placeholder, rule by rule of section 4.3: the
  location comment, the decorators, the header line around the reconstructed parameter
  list \<open>sig\<close>, and the docstring block when docstrings are included and the body starts
  with a non-empty one.
\<close>

definition header_line ::
  "('n \<Rightarrow> string) \<Rightarrow> bool \<Rightarrow> string \<Rightarrow> string \<Rightarrow> 'n option \<Rightarrow> string \<Rightarrow> string" where
  "header_line unparse is_async name sig returns indent =
     indent @ (if is_async then ''async '' else []) @ ''def '' @ name @ ''('' @ sig @ '')'' @
     (case returns of Some r \<Rightarrow> '' -> '' @ unparse r | None \<Rightarrow> []) @ '':''"

definition docstring_block :: "'n stmt list \<Rightarrow> string \<Rightarrow> bool \<Rightarrow> string list" where
  "docstring_block body body_indent include_docstrings =
     (case (if include_docstrings then get_docstring body else None) of
        Some d \<Rightarrow> (if d \<noteq> [] then [rstrip (format_docstring d body_indent)] else [])
      | None \<Rightarrow> [])"

definition stub_head ::
  "('n \<Rightarrow> string) \<Rightarrow> bool \<Rightarrow> string \<Rightarrow> int \<Rightarrow> int \<Rightarrow> 'n list \<Rightarrow> string \<Rightarrow> 'n option
     \<Rightarrow> 'n stmt list \<Rightarrow> string \<Rightarrow> string \<Rightarrow> bool \<Rightarrow> string list" where
  "stub_head unparse is_async name lineno end_lineno decorator_list sig returns body
       source_file indent include_docstrings =
     [indent @ ''# '' @ source_file @ '':'' @ str_int lineno @ ''-'' @ str_int end_lineno] @
     map (\<lambda>dec. indent @ ''@'' @ unparse dec) decorator_list @
     [header_line unparse is_async name sig returns indent] @
     docstring_block body (indent @ ''    '') include_docstrings"

text \<open>A parameter list with no parameter of any kind.\<close>

definition no_arguments :: "string arguments" where
  "no_arguments =
     \<lparr>posonlyargs = [], args = [], vararg = None, kwonlyargs = [], kw_defaults = [],
      kwarg = None, defaults = []\<rparr>"

section \<open>The specification's reading of a docstring block\<close>

text \<open>The first line of a text: what stands before its first line break.\<close>

definition first_line :: "string \<Rightarrow> string" where
  "first_line s = takeWhile (\<lambda>c. c \<noteq> NL) s"

text \<open>
  A block ends with a closing triple-quote on its own line when its last line is the
  indent followed by the three quotes and nothing else, and a line break precedes it.
\<close>

definition closes_on_own_line :: "string \<Rightarrow> string \<Rightarrow> bool" where
  "closes_on_own_line block indent = endswith block ([NL] @ indent @ TQ @ [NL])"

section \<open>The specification's reading of private filtering\<close>

text \<open>
  What one child adds to the state \<^verbatim>\<open>(lines, has_content)\<close> of the class body loop: the
  body of the loop, as the specification's rule 4 of section 4.4 lists it.
\<close>

definition class_child ::
  "('n \<Rightarrow> string) \<Rightarrow> (string \<Rightarrow> 'n \<Rightarrow> string option) \<Rightarrow> string \<Rightarrow> string \<Rightarrow> string
     \<Rightarrow> bool \<Rightarrow> bool \<Rightarrow> 'n stmt \<Rightarrow> string list \<times> bool \<Rightarrow> py_error + string list \<times> bool" where
  "class_child unparse get_source_segment source source_file body_indent
       include_docstrings include_private child st =
     (case child of
        AnnAssign n \<Rightarrow>
          Inr (fst st @ [body_indent @ segment_or_unparse unparse get_source_segment source n],
               True)
      | Assign n \<Rightarrow>
          Inr (fst st @ [body_indent @ segment_or_unparse unparse get_source_segment source n],
               True)
      | FunctionDef is_async name lineno end_lineno decorator_list fargs returns body \<Rightarrow>
          (if \<not> include_private \<and> is_private name then Inr st
           else (case stub_function unparse child source_file body_indent include_docstrings of
                   Inl e \<Rightarrow> Inl e
                 | Inr s \<Rightarrow> Inr (fst st @ [[]] @ [s], True)))
      | ClassDef name lineno end_lineno decorator_list bases keywords body \<Rightarrow>
          (if \<not> include_private \<and> is_private name then Inr st
           else (case stub_class unparse get_source_segment child source source_file
                        body_indent include_docstrings include_private of
                   Inl e \<Rightarrow> Inl e
                 | Inr s \<Rightarrow> Inr (fst st @ [[]] @ [s], True)))
      | _ \<Rightarrow> Inr st)"

text \<open>A member that the private filter removes: a function or a class with a private name.\<close>

definition filtered_out :: "'n stmt \<Rightarrow> bool" where
  "filtered_out child =
     (case child of
        FunctionDef is_async name lineno end_lineno decorator_list fargs returns body \<Rightarrow>
          is_private name
      | ClassDef name lineno end_lineno decorator_list bases keywords body \<Rightarrow> is_private name
      | _ \<Rightarrow> False)"

text \<open>
  The stub of a member that is a function or a class, as the loop renders it at the
  indent of the class body; other statements have none.
\<close>

definition member_stub ::
  "('n \<Rightarrow> string) \<Rightarrow> (string \<Rightarrow> 'n \<Rightarrow> string option) \<Rightarrow> string \<Rightarrow> string \<Rightarrow> string
     \<Rightarrow> bool \<Rightarrow> bool \<Rightarrow> 'n stmt \<Rightarrow> (py_error + string) option" where
  "member_stub unparse get_source_segment source source_file body_indent
       include_docstrings include_private child =
     (case child of
        FunctionDef is_async name lineno end_lineno decorator_list fargs returns body \<Rightarrow>
          Some (stub_function unparse child source_file body_indent include_docstrings)
      | ClassDef name lineno end_lineno decorator_list bases keywords body \<Rightarrow>
          Some (stub_class unparse get_source_segment child source source_file body_indent
                  include_docstrings include_private)
      | _ \<Rightarrow> None)"

text \<open>
  A method \<^verbatim>\<open>def name(self): ...\<close> on lines 2 to 3 and an empty class \<^verbatim>\<open>class name:\<close>
  on lines 4 to 5, for the examples, and a class \<^verbatim>\<open>C\<close> with the members \<^verbatim>\<open>_helper\<close>,
  \<^verbatim>\<open>__init__\<close>, \<^verbatim>\<open>__eq__\<close>, \<^verbatim>\<open>helper\<close>, a private class \<^verbatim>\<open>_Hidden\<close> and a class
  \<^verbatim>\<open>Inner\<close>.
\<close>

definition example_method :: "string \<Rightarrow> string stmt" where
  "example_method name =
     FunctionDef False name 2 3 []
       \<lparr>posonlyargs = [], args = [\<lparr>arg = ''self'', annotation = None\<rparr>], vararg = None,
        kwonlyargs = [], kw_defaults = [], kwarg = None, defaults = []\<rparr>
       None [OtherStmt ''pass'']"

definition example_nested :: "string \<Rightarrow> string stmt" where
  "example_nested name = ClassDef name 4 5 [] [] [] [OtherStmt ''pass'']"

definition example_class :: "string stmt" where
  "example_class =
     ClassDef ''C'' 1 9 [] [] []
       [example_method ''_helper'', example_method ''__init__'', example_method ''__eq__'',
        example_method ''helper'', example_nested ''_Hidden'', example_nested ''Inner'']"

section \<open>The specification's reading of the directory order\<close>

text \<open>The sort key of a path that has one (a path with at least one component).\<close>

definition the_key :: "string list \<Rightarrow> string list" where
  "the_key p = (case sort_key_path p of Inr k \<Rightarrow> k | Inl e \<Rightarrow> [])"

text \<open>
  The five files of the specification's example, below the directory \<^verbatim>\<open>pkg\<close>, as the
  example lists them and in the order in which their sections are expected.
\<close>

definition example_found :: "string list list" where
  "example_found =
     [[''__init__.py''], [''b.py''], [''a.py''], [''sub'', ''__init__.py''], [''sub'', ''c.py'']]"

definition example_order :: "string list list" where
  "example_order =
     [[''__init__.py''], [''a.py''], [''b.py''], [''sub'', ''__init__.py''], [''sub'', ''c.py'']]"

text \<open>
  The label of a file in its section header: its path relative to the parent of the root,
  that is, the root's name (when it has one) followed by the components below the root.
\<close>

definition rel_label :: "string \<Rightarrow> string list \<Rightarrow> string" where
  "rel_label root p = join ''/'' (if root = [] then p else root # p)"

text \<open>
  The section of one file: the header line with its label, an empty line and the projected
  body. A file has a section when its content is not blank and its projected body is not
  blank. A file is processed without an error when it can be read and, unless its content
  is blank, the projection of its content returns.
\<close>

definition section_text ::
  "(string \<Rightarrow> string \<Rightarrow> py_error + string) \<Rightarrow> string \<Rightarrow> (string list \<Rightarrow> py_error + string)
     \<Rightarrow> string list \<Rightarrow> string" where
  "section_text stub root read_text p =
     (case read_text p of
        Inr source \<Rightarrow>
          (case stub source (rel_label root p) of
             Inr body \<Rightarrow> ''# === '' @ rel_label root p @ '' ==='' @ [NL, NL] @ body
           | Inl e \<Rightarrow> [])
      | Inl e \<Rightarrow> [])"

definition has_section ::
  "(string \<Rightarrow> string \<Rightarrow> py_error + string) \<Rightarrow> string \<Rightarrow> (string list \<Rightarrow> py_error + string)
     \<Rightarrow> string list \<Rightarrow> bool" where
  "has_section stub root read_text p =
     (case read_text p of
        Inr source \<Rightarrow>
          strip source \<noteq> [] \<and>
          (case stub source (rel_label root p) of
             Inr body \<Rightarrow> strip body \<noteq> []
           | Inl e \<Rightarrow> False)
      | Inl e \<Rightarrow> False)"

definition readable ::
  "(string \<Rightarrow> string \<Rightarrow> py_error + string) \<Rightarrow> string \<Rightarrow> (string list \<Rightarrow> py_error + string)
     \<Rightarrow> string list \<Rightarrow> bool" where
  "readable stub root read_text p =
     (case read_text p of
        Inr source \<Rightarrow>
          (if strip source = [] then True
           else (case stub source (rel_label root p) of
                   Inr body \<Rightarrow> True
                 | Inl e \<Rightarrow> False))
      | Inl e \<Rightarrow> False)"

section \<open>Properties of the Signature Reconstructor\<close>

lemma getitem_nat: "i < length xs \<Longrightarrow> getitem xs (int i) = Inr (xs ! i)"
  by (simp add: getitem_def)

lemma getitem_in_range: "0 \<le> k \<Longrightarrow> k < int (length xs) \<Longrightarrow> getitem xs k = Inr (xs ! nat k)"
  by (simp add: getitem_def)

lemma pos_loop_items:
  "i + length xs \<le> length (posonlyargs node @ args node) \<Longrightarrow>
   pos_loop unparse node i xs parts =
     Inr (parts @ concat (map (\<lambda>(k, a). pos_items unparse node k a) (zip [i..<i + length xs] xs)))"
proof (induction xs arbitrary: i parts)
  case Nil
  then show ?case by simp
next
  case (Cons a xs)
  let ?k = "int i - (int (length (posonlyargs node @ args node)) - int (length (defaults node)))"
  have lt: "?k < int (length (defaults node))" using Cons.prems by simp
  have step: "Suc i + length xs \<le> length (posonlyargs node @ args node)" using Cons.prems by simp
  have upt: "[i..<i + length (a # xs)] = i # [Suc i..<Suc i + length xs]"
    by (simp add: upt_rec)
  have mark: "(int i = int (length (posonlyargs node)) - 1 \<and> 0 < int (length (posonlyargs node)))
      = (Suc i = length (posonlyargs node))" by auto
  show ?case
  proof (cases "0 \<le> ?k")
    case True
    have g: "getitem (defaults node) ?k = Inr (defaults node ! nat ?k)"
      using True lt by (rule getitem_in_range)
    show ?thesis
      unfolding upt using True g mark Cons.IH [OF step]
      by (simp add: Let_def pos_items_def pos_fragment_def annotated_def split: option.split)
  next
    case False
    show ?thesis
      unfolding upt using False mark Cons.IH [OF step]
      by (simp add: Let_def pos_items_def pos_fragment_def annotated_def split: option.split)
  qed
qed

lemma kw_loop_items:
  "i + length xs \<le> length (kw_defaults node) \<Longrightarrow>
   kw_loop unparse node i xs parts =
     Inr (parts @ map (\<lambda>(k, a). kw_fragment unparse node k a) (zip [i..<i + length xs] xs))"
proof (induction xs arbitrary: i parts)
  case Nil
  then show ?case by simp
next
  case (Cons a xs)
  have g: "getitem (kw_defaults node) (int i) = Inr (kw_defaults node ! i)"
    using Cons.prems by (simp add: getitem_nat)
  have step: "Suc i + length xs \<le> length (kw_defaults node)" using Cons.prems by simp
  have upt: "[i..<i + length (a # xs)] = i # [Suc i..<Suc i + length xs]"
    by (simp add: upt_rec)
  show ?case
    unfolding upt using g Cons.IH [OF step]
    by (simp add: Let_def kw_fragment_def annotated_def split: option.split)
qed

lemma zip_upt_nth: "zip [0..<length xs] xs = map (\<lambda>i. (i, xs ! i)) [0..<length xs]"
  by (rule nth_equalityI) simp_all

lemma concat_no_marker:
  "\<forall>i\<in>set ks. Suc i \<noteq> length (posonlyargs node) \<Longrightarrow>
   concat (map (\<lambda>i. pos_items unparse node i (f i)) ks) =
     map (\<lambda>i. pos_fragment unparse node i (f i)) ks"
  by (induction ks) (simp_all add: pos_items_def)

lemma concat_posonly:
  "concat (map (\<lambda>i. pos_items unparse node i (f i)) [0..<length (posonlyargs node)]) =
     map (\<lambda>i. pos_fragment unparse node i (f i)) [0..<length (posonlyargs node)] @
     (if posonlyargs node \<noteq> [] then [''/''] else [])"
proof (cases "length (posonlyargs node)")
  case 0
  then show ?thesis by simp
next
  case (Suc p)
  have "\<forall>i\<in>set [0..<p]. Suc i \<noteq> length (posonlyargs node)" using Suc by simp
  then have "concat (map (\<lambda>i. pos_items unparse node i (f i)) [0..<p]) =
      map (\<lambda>i. pos_fragment unparse node i (f i)) [0..<p]"
    by (rule concat_no_marker)
  moreover have "posonlyargs node \<noteq> []" using Suc by auto
  ultimately show ?thesis using Suc by (simp add: pos_items_def)
qed

lemma pos_loop_layout:
  "pos_loop unparse node 0 (posonlyargs node @ args node) [] = Inr (pos_part unparse node)"
proof -
  let ?xs = "posonlyargs node @ args node"
  let ?P = "length (posonlyargs node)"
  have "pos_loop unparse node 0 ?xs [] =
      Inr ([] @ concat (map (\<lambda>(k, a). pos_items unparse node k a) (zip [0..<0 + length ?xs] ?xs)))"
    by (rule pos_loop_items) simp
  also have "zip [0..<0 + length ?xs] ?xs = map (\<lambda>i. (i, ?xs ! i)) [0..<length ?xs]"
    using zip_upt_nth [of ?xs] by simp
  finally have 1: "pos_loop unparse node 0 ?xs [] =
      Inr (concat (map (\<lambda>i. pos_items unparse node i (?xs ! i)) [0..<length ?xs]))"
    by (simp add: comp_def)
  have split: "[0..<length ?xs] = [0..<?P] @ [?P..<length ?xs]"
    by (metis le_add1 length_append upt_add_eq_append zero_le le_add_diff_inverse)
  have tail: "\<forall>i\<in>set [?P..<length ?xs]. Suc i \<noteq> ?P" by simp
  have "concat (map (\<lambda>i. pos_items unparse node i (?xs ! i)) [0..<length ?xs]) =
      concat (map (\<lambda>i. pos_items unparse node i (?xs ! i)) [0..<?P]) @
      concat (map (\<lambda>i. pos_items unparse node i (?xs ! i)) [?P..<length ?xs])"
    by (subst split) simp
  also have "\<dots> = pos_part unparse node"
    unfolding pos_part_def all_pos_def
    by (simp only: concat_posonly concat_no_marker [OF tail] append_assoc)
  finally show ?thesis using 1 by simp
qed

lemma format_parts_layout:
  assumes "length (kw_defaults node) = length (kwonlyargs node)"
  shows "format_parts unparse node =
     Inr (pos_part unparse node @ star_part unparse node @ kw_part unparse node @
          kwarg_part unparse node)"
proof -
  have kw: "kw_loop unparse node 0 (kwonlyargs node) parts = Inr (parts @ kw_part unparse node)"
    for parts
  proof -
    have "kw_loop unparse node 0 (kwonlyargs node) parts =
        Inr (parts @ map (\<lambda>(k, a). kw_fragment unparse node k a)
               (zip [0..<0 + length (kwonlyargs node)] (kwonlyargs node)))"
      by (rule kw_loop_items) (simp add: assms)
    then show ?thesis
      using zip_upt_nth [of "kwonlyargs node"] by (simp add: kw_part_def comp_def)
  qed
  show ?thesis
    by (simp add: format_parts_def pos_loop_layout kw Let_def star_part_def kwarg_part_def
        annotated_def split: option.split)
qed

lemma length_pos_part:
  "length (pos_part unparse node) =
     length (all_pos node) + (if posonlyargs node = [] then 0 else 1)"
  by (simp add: pos_part_def all_pos_def)

lemma length_star_part:
  "length (star_part unparse node) = (if vararg node = None \<and> kwonlyargs node = [] then 0 else 1)"
  by (simp add: star_part_def split: option.split)

lemma pos_part_nth:
  assumes "i < length (all_pos node)"
  shows "pos_part unparse node ! pos_index node i =
     pos_fragment unparse node i (all_pos node ! i)"
proof (cases "i < length (posonlyargs node)")
  case True
  then show ?thesis
    by (simp add: pos_part_def pos_index_def nth_append)
next
  case False
  then have ge: "length (posonlyargs node) \<le> i" by simp
  show ?thesis
  proof (cases "posonlyargs node = []")
    case True
    then show ?thesis using assms
      by (simp add: pos_part_def pos_index_def)
  next
    case ne: False
    have "pos_part unparse node ! Suc i =
        (map (\<lambda>i. pos_fragment unparse node i (all_pos node ! i))
           [length (posonlyargs node)..<length (all_pos node)]) ! (i - length (posonlyargs node))"
      using ne ge by (simp add: pos_part_def nth_append Suc_diff_le)
    also have "\<dots> = pos_fragment unparse node i (all_pos node ! i)"
    proof -
      have "length (posonlyargs node) + (i - length (posonlyargs node)) = i"
        using ge by simp
      then have "[length (posonlyargs node)..<length (all_pos node)] !
          (i - length (posonlyargs node)) = i"
        using assms by (simp only: nth_upt)
      then show ?thesis using assms ge by simp
    qed
    finally show ?thesis using ne ge by (simp add: pos_index_def)
  qed
qed

lemma pos_fragment_spec:
  assumes "length (defaults node) \<le> length (all_pos node)"
  shows "pos_fragment unparse node i (all_pos node ! i) = spec_pos_render unparse node i"
proof -
  let ?n = "length (all_pos node)" and ?d = "length (defaults node)"
  have a: "int i - (int ?n - int ?d) = int i - int (?n - ?d)" using assms by simp
  have b: "(0 \<le> int i - int (?n - ?d)) = (?n - ?d \<le> i)" by auto
  have c: "nat (int i - int (?n - ?d)) = i - (?n - ?d)" by simp
  show ?thesis
    unfolding pos_fragment_def spec_pos_render_def Let_def all_pos_def [symmetric] a b c ..
qed

lemma spec_pos_render_list:
  assumes "length (defaults node) \<le> length (all_pos node)"
  shows "map (spec_pos_render unparse node) [0..<length (all_pos node)] =
     map (annotated unparse) (take (length (all_pos node) - length (defaults node)) (all_pos node)) @
     map2 (\<lambda>a d. annotated unparse a @ '' = '' @ unparse d)
       (drop (length (all_pos node) - length (defaults node)) (all_pos node)) (defaults node)"
    (is "?l = ?r")
proof (rule nth_equalityI)
  show "length ?l = length ?r" using assms by simp
next
  fix i assume "i < length ?l"
  then have i: "i < length (all_pos node)" by simp
  let ?m = "length (all_pos node) - length (defaults node)"
  show "?l ! i = ?r ! i"
  proof (cases "?m \<le> i")
    case True
    have "i - ?m < length (defaults node)" using i True assms by arith
    moreover have "?m + (i - ?m) = i" using True by simp
    ultimately show ?thesis using i True assms
      by (simp add: nth_append spec_pos_render_def Let_def)
  next
    case False
    then show ?thesis using i
      by (simp add: nth_append spec_pos_render_def Let_def)
  qed
qed

text \<open>
  Claim C1. With \<open>P\<close> positional-only parameters, \<open>Q\<close> positional-or-keyword parameters
  and \<open>D \<le> P + Q\<close> positional defaults (and the keyword-only defaults paired with their
  parameters, as the parser builds them), \<^verbatim>\<open>format_arguments\<close> returns, and the fragment
  of the parameter at index \<open>i\<close> of the combined positional sequence is its name with its
  annotation, followed by \<^verbatim>\<open> = \<close> and the default at index \<open>i - (P + Q - D)\<close> exactly when
  \<open>i \<ge> P + Q - D\<close>. Read together, the positional fragments are the first \<open>P + Q - D\<close>
  parameters without a default followed by the last \<open>D\<close> parameters paired, in order, with
  the \<open>D\<close> defaults. \<open>pos_index\<close> is the place of a positional parameter in the list of
  fragments: the \<^verbatim>\<open>/\<close> marker shifts the parameters after it by one.
\<close>

theorem defaults_align_to_end:
  assumes "length (defaults node) \<le> length (posonlyargs node) + length (args node)"
      and "length (kw_defaults node) = length (kwonlyargs node)"
  shows "\<exists>parts. format_parts unparse node = Inr parts \<and>
           format_arguments unparse node = Inr (join '', '' parts) \<and>
           (\<forall>i < length (posonlyargs node) + length (args node).
              parts ! pos_index node i = spec_pos_render unparse node i) \<and>
           map (\<lambda>i. parts ! pos_index node i) [0..<length (all_pos node)] =
             map (annotated unparse)
               (take (length (all_pos node) - length (defaults node)) (all_pos node)) @
             map2 (\<lambda>a d. annotated unparse a @ '' = '' @ unparse d)
               (drop (length (all_pos node) - length (defaults node)) (all_pos node))
               (defaults node)"
proof -
  let ?parts = "pos_part unparse node @ star_part unparse node @ kw_part unparse node @
                kwarg_part unparse node"
  have d: "length (defaults node) \<le> length (all_pos node)"
    using assms(1) by (simp add: all_pos_def)
  have parts: "format_parts unparse node = Inr ?parts"
    using assms(2) by (rule format_parts_layout)
  have nth: "?parts ! pos_index node i = spec_pos_render unparse node i"
    if "i < length (all_pos node)" for i
  proof -
    have "pos_index node i < length (pos_part unparse node)"
      using that by (simp add: length_pos_part pos_index_def)
    then have "?parts ! pos_index node i = pos_part unparse node ! pos_index node i"
      by (simp add: nth_append)
    then show ?thesis
      using that d by (simp add: pos_part_nth pos_fragment_spec)
  qed
  have "map (\<lambda>i. ?parts ! pos_index node i) [0..<length (all_pos node)] =
      map (spec_pos_render unparse node) [0..<length (all_pos node)]"
    using nth by simp
  then have all: "map (\<lambda>i. ?parts ! pos_index node i) [0..<length (all_pos node)] =
      map (annotated unparse)
        (take (length (all_pos node) - length (defaults node)) (all_pos node)) @
      map2 (\<lambda>a d. annotated unparse a @ '' = '' @ unparse d)
        (drop (length (all_pos node) - length (defaults node)) (all_pos node))
        (defaults node)"
    using spec_pos_render_list [OF d] by simp
  have each: "\<forall>i < length (posonlyargs node) + length (args node).
      ?parts ! pos_index node i = spec_pos_render unparse node i"
    using nth by (simp add: all_pos_def)
  show ?thesis
    using parts each all by (simp add: format_arguments_def)
qed

theorem defaults_align_to_end_witness:
  "\<exists>parts. format_parts id example_arguments = Inr parts \<and>
     format_arguments id example_arguments = Inr (join '', '' parts) \<and>
     parts ! 0 = ''a'' \<and> parts ! 2 = ''b: int = 1'' \<and> parts ! 3 = ''c = 2''"
proof -
  have d: "length (defaults example_arguments) \<le>
      length (posonlyargs example_arguments) + length (args example_arguments)"
    by (simp add: example_arguments_def)
  have k: "length (kw_defaults example_arguments) = length (kwonlyargs example_arguments)"
    by (simp add: example_arguments_def)
  from defaults_align_to_end [OF d k, of id] obtain parts where
    p: "format_parts id example_arguments = Inr parts"
      "format_arguments id example_arguments = Inr (join '', '' parts)" and
    each: "\<forall>i < length (posonlyargs example_arguments) + length (args example_arguments).
      parts ! pos_index example_arguments i = spec_pos_render id example_arguments i"
    by blast
  have "parts ! pos_index example_arguments 0 = spec_pos_render id example_arguments 0"
    "parts ! pos_index example_arguments 1 = spec_pos_render id example_arguments 1"
    "parts ! pos_index example_arguments 2 = spec_pos_render id example_arguments 2"
    using each by (simp_all add: example_arguments_def)
  then have "parts ! 0 = ''a''" "parts ! 2 = ''b: int = 1''" "parts ! 3 = ''c = 2''"
    by (simp_all add: example_arguments_def pos_index_def spec_pos_render_def all_pos_def
        annotated_def eval_nat_numeral)
  with p show ?thesis by blast
qed

lemma annotated_hd:
  "name_start_ok (arg a) \<Longrightarrow> annotated unparse a \<noteq> [] \<and> hd (annotated unparse a) = hd (arg a)"
  by (simp add: annotated_def name_start_ok_def)

lemma pos_fragment_hd:
  "name_start_ok (arg a) \<Longrightarrow> hd (pos_fragment unparse node i a) = hd (arg a)"
  using annotated_hd [of a unparse] by (simp add: pos_fragment_def Let_def)

lemma kw_fragment_hd:
  "name_start_ok (arg a) \<Longrightarrow> hd (kw_fragment unparse node i a) = hd (arg a)"
  using annotated_hd [of a unparse] by (simp add: kw_fragment_def)

lemma pos_fragment_not_marker:
  assumes "name_start_ok (arg a)"
  shows "pos_fragment unparse node i a \<noteq> ''/''" and "pos_fragment unparse node i a \<noteq> ''*''"
proof -
  have "hd (pos_fragment unparse node i a) \<noteq> CHR ''/''" "hd (pos_fragment unparse node i a) \<noteq> CHR ''*''"
    using assms by (simp_all add: pos_fragment_hd name_start_ok_def)
  then show "pos_fragment unparse node i a \<noteq> ''/''" and "pos_fragment unparse node i a \<noteq> ''*''"
    by auto
qed

lemma kw_fragment_not_marker:
  assumes "name_start_ok (arg a)"
  shows "kw_fragment unparse node i a \<noteq> ''/''" and "kw_fragment unparse node i a \<noteq> ''*''"
proof -
  have "hd (kw_fragment unparse node i a) \<noteq> CHR ''/''" "hd (kw_fragment unparse node i a) \<noteq> CHR ''*''"
    using assms by (simp_all add: kw_fragment_hd name_start_ok_def)
  then show "kw_fragment unparse node i a \<noteq> ''/''" and "kw_fragment unparse node i a \<noteq> ''*''"
    by auto
qed

lemma all_pos_names_ok:
  assumes "\<forall>s\<in>set (param_names node). name_start_ok s" and "i < length (all_pos node)"
  shows "name_start_ok (arg (all_pos node ! i))"
proof -
  have "all_pos node ! i \<in> set (posonlyargs node) \<union> set (args node)"
    using assms(2) nth_mem [of i "all_pos node"] by (simp add: all_pos_def)
  then have "arg (all_pos node ! i) \<in> set (param_names node)"
    by (auto simp: param_names_def)
  then show ?thesis using assms(1) by blast
qed

lemma kwonly_names_ok:
  assumes "\<forall>s\<in>set (param_names node). name_start_ok s" and "i < length (kwonlyargs node)"
  shows "name_start_ok (arg (kwonlyargs node ! i))"
proof -
  have "arg (kwonlyargs node ! i) \<in> set (param_names node)"
    using assms(2) by (simp add: param_names_def)
  then show ?thesis using assms(1) by blast
qed

lemma pos_fragments_no_marker:
  assumes "\<forall>s\<in>set (param_names node). name_start_ok s" and "set ks \<subseteq> {0..<length (all_pos node)}"
  shows "''/'' \<notin> set (map (\<lambda>i. pos_fragment unparse node i (all_pos node ! i)) ks)"
    and "''*'' \<notin> set (map (\<lambda>i. pos_fragment unparse node i (all_pos node ! i)) ks)"
proof -
  have ok: "name_start_ok (arg (all_pos node ! i))" if "i \<in> set ks" for i
  proof -
    from that assms(2) have "i < length (all_pos node)" by auto
    with assms(1) show ?thesis by (rule all_pos_names_ok)
  qed
  show "''/'' \<notin> set (map (\<lambda>i. pos_fragment unparse node i (all_pos node ! i)) ks)"
  proof
    assume "''/'' \<in> set (map (\<lambda>i. pos_fragment unparse node i (all_pos node ! i)) ks)"
    then obtain i where "i \<in> set ks" "''/'' = pos_fragment unparse node i (all_pos node ! i)"
      by auto
    then show False using pos_fragment_not_marker(1) [OF ok] by metis
  qed
  show "''*'' \<notin> set (map (\<lambda>i. pos_fragment unparse node i (all_pos node ! i)) ks)"
  proof
    assume "''*'' \<in> set (map (\<lambda>i. pos_fragment unparse node i (all_pos node ! i)) ks)"
    then obtain i where "i \<in> set ks" "''*'' = pos_fragment unparse node i (all_pos node ! i)"
      by auto
    then show False using pos_fragment_not_marker(2) [OF ok] by metis
  qed
qed

lemma kw_part_no_marker:
  assumes "\<forall>s\<in>set (param_names node). name_start_ok s"
  shows "''/'' \<notin> set (kw_part unparse node)" and "''*'' \<notin> set (kw_part unparse node)"
proof -
  note ok = kwonly_names_ok [OF assms]
  show "''/'' \<notin> set (kw_part unparse node)"
  proof
    assume "''/'' \<in> set (kw_part unparse node)"
    then obtain i where "i < length (kwonlyargs node)"
        "''/'' = kw_fragment unparse node i (kwonlyargs node ! i)"
      by (auto simp: kw_part_def)
    then show False using kw_fragment_not_marker(1) [OF ok] by metis
  qed
  show "''*'' \<notin> set (kw_part unparse node)"
  proof
    assume "''*'' \<in> set (kw_part unparse node)"
    then obtain i where "i < length (kwonlyargs node)"
        "''*'' = kw_fragment unparse node i (kwonlyargs node ! i)"
      by (auto simp: kw_part_def)
    then show False using kw_fragment_not_marker(2) [OF ok] by metis
  qed
qed

lemma kwarg_part_no_marker:
  "''/'' \<notin> set (kwarg_part unparse node)" "''*'' \<notin> set (kwarg_part unparse node)"
  by (simp_all add: kwarg_part_def split: option.split)

lemma star_part_no_slash: "''/'' \<notin> set (star_part unparse node)"
  by (simp add: star_part_def split: option.split)

lemma star_part_bare:
  assumes "\<forall>s\<in>set (param_names node). name_start_ok s"
  shows "''*'' \<in> set (star_part unparse node) \<longleftrightarrow> vararg node = None \<and> kwonlyargs node \<noteq> []"
proof (cases "vararg node")
  case None
  then show ?thesis by (simp add: star_part_def)
next
  case (Some v)
  then have "arg v \<in> set (param_names node)" by (simp add: param_names_def)
  then have "annotated unparse v \<noteq> []"
    using assms annotated_hd [of v unparse] by blast
  then show ?thesis using Some by (simp add: star_part_def)
qed

lemma pos_part_slash:
  assumes "\<forall>s\<in>set (param_names node). name_start_ok s"
  shows "count_list (pos_part unparse node) ''/'' = (if posonlyargs node = [] then 0 else 1)"
proof -
  have "''/'' \<notin> set (map (\<lambda>i. pos_fragment unparse node i (all_pos node ! i))
        [0..<length (posonlyargs node)])"
    by (rule pos_fragments_no_marker [OF assms]) (auto simp: all_pos_def)
  then have a: "count_list (map (\<lambda>i. pos_fragment unparse node i (all_pos node ! i))
        [0..<length (posonlyargs node)]) ''/'' = 0"
    by (rule count_notin)
  have "''/'' \<notin> set (map (\<lambda>i. pos_fragment unparse node i (all_pos node ! i))
        [length (posonlyargs node)..<length (all_pos node)])"
    by (rule pos_fragments_no_marker [OF assms]) auto
  then have b: "count_list (map (\<lambda>i. pos_fragment unparse node i (all_pos node ! i))
        [length (posonlyargs node)..<length (all_pos node)]) ''/'' = 0"
    by (rule count_notin)
  show ?thesis
    unfolding pos_part_def count_list_append a b by simp
qed

lemma pos_part_no_star:
  assumes "\<forall>s\<in>set (param_names node). name_start_ok s"
  shows "''*'' \<notin> set (pos_part unparse node)"
proof -
  have a: "''*'' \<notin> set (map (\<lambda>i. pos_fragment unparse node i (all_pos node ! i))
        [0..<length (posonlyargs node)])"
    by (rule pos_fragments_no_marker [OF assms]) (auto simp: all_pos_def)
  have b: "''*'' \<notin> set (map (\<lambda>i. pos_fragment unparse node i (all_pos node ! i))
        [length (posonlyargs node)..<length (all_pos node)])"
    by (rule pos_fragments_no_marker [OF assms]) auto
  have c: "''*'' \<notin> set (if posonlyargs node \<noteq> [] then [''/''] else [])" by simp
  show ?thesis
    unfolding pos_part_def set_append Un_iff using a b c by blast
qed

lemma take_pos_part:
  "take (length (posonlyargs node)) (pos_part unparse node) =
     map (\<lambda>i. pos_fragment unparse node i (posonlyargs node ! i)) [0..<length (posonlyargs node)]"
proof -
  have "map (\<lambda>i. pos_fragment unparse node i (all_pos node ! i)) [0..<length (posonlyargs node)] =
      map (\<lambda>i. pos_fragment unparse node i (posonlyargs node ! i)) [0..<length (posonlyargs node)]"
    by (rule map_cong) (simp_all add: all_pos_def nth_append)
  then show ?thesis by (simp add: pos_part_def)
qed

lemma pos_part_marker_at:
  "posonlyargs node \<noteq> [] \<Longrightarrow> pos_part unparse node ! length (posonlyargs node) = ''/''"
  by (simp add: pos_part_def nth_append)

text \<open>
  Claim C6. When every parameter name starts like an identifier (it is not empty and does
  not begin with \<^verbatim>\<open>/\<close> or \<^verbatim>\<open>*\<close>), the list of rendered fragments contains a bare
  \<^verbatim>\<open>/\<close> exactly when there is a positional-only parameter; then the first \<open>P\<close> fragments
  are the positional-only parameters, the marker is the fragment right after them, and it
  occurs once.
\<close>

theorem slash_marker:
  assumes "length (kw_defaults node) = length (kwonlyargs node)"
      and "\<forall>s\<in>set (param_names node). name_start_ok s"
  shows "\<exists>parts. format_parts unparse node = Inr parts \<and>
           format_arguments unparse node = Inr (join '', '' parts) \<and>
           (''/'' \<in> set parts \<longleftrightarrow> posonlyargs node \<noteq> []) \<and>
           (posonlyargs node \<noteq> [] \<longrightarrow>
              take (length (posonlyargs node)) parts =
                map (\<lambda>i. pos_fragment unparse node i (posonlyargs node ! i))
                  [0..<length (posonlyargs node)] \<and>
              parts ! length (posonlyargs node) = ''/'' \<and>
              count_list parts ''/'' = 1)"
proof -
  let ?rest = "star_part unparse node @ kw_part unparse node @ kwarg_part unparse node"
  let ?parts = "pos_part unparse node @ ?rest"
  have parts: "format_parts unparse node = Inr ?parts"
    using assms(1) by (rule format_parts_layout)
  have "''/'' \<notin> set ?rest"
    using star_part_no_slash [of unparse node] kw_part_no_marker(1) [OF assms(2), of unparse]
      kwarg_part_no_marker(1) [of unparse node]
    by simp
  then have rest: "count_list ?rest ''/'' = 0" by (rule count_notin)
  have "count_list ?parts ''/'' = count_list (pos_part unparse node) ''/'' + count_list ?rest ''/''"
    by (rule count_list_append)
  then have cnt: "count_list ?parts ''/'' = (if posonlyargs node = [] then 0 else 1)"
    by (simp only: rest pos_part_slash [OF assms(2)] add_0_right)
  have mem: "''/'' \<in> set ?parts \<longleftrightarrow> posonlyargs node \<noteq> []"
    using cnt count_list_0_iff [of ?parts "''/''"] by (simp split: if_splits)
  have len: "length (posonlyargs node) \<le> length (pos_part unparse node)"
    by (simp add: length_pos_part all_pos_def)
  have tk: "take (length (posonlyargs node)) ?parts =
      map (\<lambda>i. pos_fragment unparse node i (posonlyargs node ! i)) [0..<length (posonlyargs node)]"
    using len take_pos_part [of node unparse] by simp
  have at: "?parts ! length (posonlyargs node) = ''/''" if "posonlyargs node \<noteq> []"
  proof -
    have "length (posonlyargs node) < length (pos_part unparse node)"
      using that by (simp add: length_pos_part all_pos_def)
    then show ?thesis using pos_part_marker_at [OF that, of unparse] by (simp add: nth_append)
  qed
  show ?thesis
    using parts mem tk at cnt by (simp add: format_arguments_def)
qed

theorem slash_marker_witness:
  "\<exists>parts. format_parts id example_arguments = Inr parts \<and>
     ''/'' \<in> set parts \<and> take 1 parts = [''a''] \<and> parts ! 1 = ''/'' \<and>
     count_list parts ''/'' = 1"
proof -
  have k: "length (kw_defaults example_arguments) = length (kwonlyargs example_arguments)"
    by (simp add: example_arguments_def)
  have n: "\<forall>s\<in>set (param_names example_arguments). name_start_ok s"
    by (simp add: example_arguments_def param_names_def name_start_ok_def)
  have ne: "posonlyargs example_arguments \<noteq> []"
    by (simp add: example_arguments_def)
  from slash_marker [OF k n, of id] ne obtain parts where
    p: "format_parts id example_arguments = Inr parts" "''/'' \<in> set parts" and
    q: "take (length (posonlyargs example_arguments)) parts =
        map (\<lambda>i. pos_fragment id example_arguments i (posonlyargs example_arguments ! i))
          [0..<length (posonlyargs example_arguments)]"
       "parts ! length (posonlyargs example_arguments) = ''/''"
       "count_list parts ''/'' = 1"
    by blast
  from q have "take 1 parts = [''a'']" "parts ! 1 = ''/''"
    by (simp_all add: example_arguments_def pos_fragment_def annotated_def)
  with p q(3) show ?thesis by blast
qed

text \<open>
  Claim C7. When every parameter name starts like an identifier, the list of rendered
  fragments contains a bare \<^verbatim>\<open>*\<close> exactly when there is no variadic-positional
  parameter and there is a keyword-only parameter. The fragment right after the positional
  group is \<^verbatim>\<open>*name\<close>, with its annotation if any, when a variadic-positional parameter
  exists, and the bare \<^verbatim>\<open>*\<close> otherwise when keyword-only parameters exist.
\<close>

theorem star_marker:
  assumes "length (kw_defaults node) = length (kwonlyargs node)"
      and "\<forall>s\<in>set (param_names node). name_start_ok s"
  shows "\<exists>parts. format_parts unparse node = Inr parts \<and>
           format_arguments unparse node = Inr (join '', '' parts) \<and>
           (''*'' \<in> set parts \<longleftrightarrow> vararg node = None \<and> kwonlyargs node \<noteq> []) \<and>
           (let k = length (all_pos node) + (if posonlyargs node = [] then 0 else 1)
            in case vararg node of
                 Some v \<Rightarrow> parts ! k = ''*'' @ annotated unparse v
               | None \<Rightarrow> kwonlyargs node \<noteq> [] \<longrightarrow> parts ! k = ''*'')"
proof -
  let ?rest = "kw_part unparse node @ kwarg_part unparse node"
  let ?parts = "pos_part unparse node @ star_part unparse node @ ?rest"
  have parts: "format_parts unparse node = Inr ?parts"
    using assms(1) by (rule format_parts_layout)
  have mem: "''*'' \<in> set ?parts \<longleftrightarrow> vararg node = None \<and> kwonlyargs node \<noteq> []"
    using pos_part_no_star [OF assms(2), of unparse] star_part_bare [OF assms(2), of unparse]
      kw_part_no_marker(2) [OF assms(2), of unparse] kwarg_part_no_marker(2) [of unparse node]
    by simp
  have at: "?parts ! (length (all_pos node) + (if posonlyargs node = [] then 0 else 1)) =
      (star_part unparse node @ ?rest) ! 0"
    using nth_append_length_plus [of "pos_part unparse node" "star_part unparse node @ ?rest" 0]
    by (simp add: length_pos_part)
  have star: "case vararg node of
      Some v \<Rightarrow> (star_part unparse node @ ?rest) ! 0 = ''*'' @ annotated unparse v
    | None \<Rightarrow> kwonlyargs node \<noteq> [] \<longrightarrow> (star_part unparse node @ ?rest) ! 0 = ''*''"
    by (simp add: star_part_def split: option.split)
  show ?thesis
    using parts mem star unfolding at [symmetric]
    by (simp add: format_arguments_def Let_def)
qed

theorem star_marker_witness:
  "\<exists>parts. format_parts id example_arguments = Inr parts \<and>
     ''*'' \<in> set parts \<and> parts ! 4 = ''*''"
proof -
  have k: "length (kw_defaults example_arguments) = length (kwonlyargs example_arguments)"
    by (simp add: example_arguments_def)
  have n: "\<forall>s\<in>set (param_names example_arguments). name_start_ok s"
    by (simp add: example_arguments_def param_names_def name_start_ok_def)
  have v: "vararg example_arguments = None \<and> kwonlyargs example_arguments \<noteq> []"
    by (simp add: example_arguments_def)
  from star_marker [OF k n, of id] obtain parts where
    p: "format_parts id example_arguments = Inr parts" and
    m: "''*'' \<in> set parts \<longleftrightarrow>
        vararg example_arguments = None \<and> kwonlyargs example_arguments \<noteq> []" and
    a: "let k = length (all_pos example_arguments) +
              (if posonlyargs example_arguments = [] then 0 else 1)
        in case vararg example_arguments of
             Some v \<Rightarrow> parts ! k = ''*'' @ annotated id v
           | None \<Rightarrow> kwonlyargs example_arguments \<noteq> [] \<longrightarrow> parts ! k = ''*''"
    by blast
  from a have "parts ! 4 = ''*''"
    by (simp add: example_arguments_def all_pos_def eval_nat_numeral)
  with p m v show ?thesis by blast
qed

text \<open>
  Claim C8. The keyword-only parameters are rendered in declaration order, after the
  positional group and the star fragment: the fragment of the keyword-only parameter at
  index \<open>i\<close> is its name with its annotation, followed by \<^verbatim>\<open> = \<close> and the entry at index
  \<open>i\<close> of \<^verbatim>\<open>kw_defaults\<close> when that entry is present. The positional \<^verbatim>\<open>defaults\<close> do not
  occur in it.
\<close>

theorem kwonly_defaults_paired:
  assumes "length (kw_defaults node) = length (kwonlyargs node)"
  shows "\<exists>parts. format_parts unparse node = Inr parts \<and>
           format_arguments unparse node = Inr (join '', '' parts) \<and>
           (\<forall>i < length (kwonlyargs node).
              parts ! (kw_offset node + i) =
                annotated unparse (kwonlyargs node ! i) @
                (case kw_defaults node ! i of Some d \<Rightarrow> '' = '' @ unparse d | None \<Rightarrow> []))"
proof -
  let ?front = "pos_part unparse node @ star_part unparse node"
  let ?parts = "?front @ kw_part unparse node @ kwarg_part unparse node"
  have parts: "format_parts unparse node = Inr ?parts"
    using assms by (simp add: format_parts_layout)
  have off: "length ?front = kw_offset node"
    by (simp add: length_pos_part length_star_part kw_offset_def)
  have "?parts ! (kw_offset node + i) =
      annotated unparse (kwonlyargs node ! i) @
      (case kw_defaults node ! i of Some d \<Rightarrow> '' = '' @ unparse d | None \<Rightarrow> [])"
    if "i < length (kwonlyargs node)" for i
  proof -
    have "?parts ! (length ?front + i) = (kw_part unparse node @ kwarg_part unparse node) ! i"
      by (rule nth_append_length_plus)
    also have "\<dots> = kw_part unparse node ! i"
      using that by (simp add: nth_append kw_part_def)
    also have "\<dots> = kw_fragment unparse node i (kwonlyargs node ! i)"
      using that by (simp add: kw_part_def)
    finally show ?thesis unfolding off by (simp add: kw_fragment_def)
  qed
  then show ?thesis
    using parts by (simp add: format_arguments_def)
qed

theorem kwonly_defaults_paired_witness:
  "\<exists>parts. format_parts id example_arguments = Inr parts \<and> parts ! 5 = ''k = 0''"
proof -
  have k: "length (kw_defaults example_arguments) = length (kwonlyargs example_arguments)"
    by (simp add: example_arguments_def)
  from kwonly_defaults_paired [OF k, of id] obtain parts where
    p: "format_parts id example_arguments = Inr parts" and
    e: "\<forall>i < length (kwonlyargs example_arguments).
        parts ! (kw_offset example_arguments + i) =
          annotated id (kwonlyargs example_arguments ! i) @
          (case kw_defaults example_arguments ! i of Some d \<Rightarrow> '' = '' @ id d | None \<Rightarrow> [])"
    by blast
  have "parts ! (kw_offset example_arguments + 0) =
      annotated id (kwonlyargs example_arguments ! 0) @
      (case kw_defaults example_arguments ! 0 of Some d \<Rightarrow> '' = '' @ id d | None \<Rightarrow> [])"
    using e by (simp add: example_arguments_def)
  then have "parts ! 5 = ''k = 0''"
    by (simp add: example_arguments_def kw_offset_def all_pos_def annotated_def
        eval_nat_numeral)
  with p show ?thesis by blast
qed

section \<open>Properties of the function stub\<close>




lemma docstring_loop_extends: "\<exists>t. docstring_loop indent ls r = r @ t"
proof (induction ls arbitrary: r)
  case Nil
  then show ?case by simp
next
  case (Cons l ls)
  obtain t where "docstring_loop indent ls
      (if strip l \<noteq> [] then r @ indent @ l @ [NL] else r @ [NL]) =
      (if strip l \<noteq> [] then r @ indent @ l @ [NL] else r @ [NL]) @ t"
    using Cons.IH by blast
  then show ?case by (cases "strip l \<noteq> []") simp_all
qed




lemma stub_function_lines_eq:
  assumes "format_arguments unparse fargs = Inr sig"
  shows "stub_function_lines unparse
       (FunctionDef is_async name lineno end_lineno decorator_list fargs returns body)
       source_file indent include_docstrings =
     Inr (stub_head unparse is_async name lineno end_lineno decorator_list sig returns body
            source_file indent include_docstrings @ [(indent @ ''    '') @ ''...''])"
  using assms
  by (simp add: Let_def stub_head_def header_line_def docstring_block_def split: option.split)





text \<open>
  Claim C10. For a parameter list with no parameter of any kind, \<^verbatim>\<open>format_arguments\<close>
  returns the empty string, and the header line of the function stub (the line after the
  location comment and the decorators) has empty parentheses: \<^verbatim>\<open>def name():\<close>, after the
  indent and \<^verbatim>\<open>async\<close> if any and with the return annotation if any.
\<close>

theorem empty_parameter_list:
  assumes "posonlyargs node = []" and "args node = []" and "vararg node = None"
      and "kwonlyargs node = []" and "kwarg node = None"
  shows "format_arguments unparse node = Inr [] \<and>
     (\<exists>lines.
        stub_function_lines unparse
            (FunctionDef is_async name lineno end_lineno decorator_list node returns body)
            source_file indent include_docstrings = Inr lines \<and>
        lines ! Suc (length decorator_list) =
          indent @ (if is_async then ''async '' else []) @ ''def '' @ name @ ''()'' @
          (case returns of Some r \<Rightarrow> '' -> '' @ unparse r | None \<Rightarrow> []) @ '':'')"
proof -
  have sig: "format_arguments unparse node = Inr []"
    using assms by (simp add: format_arguments_def format_parts_def)
  let ?head = "stub_head unparse is_async name lineno end_lineno decorator_list [] returns body
      source_file indent include_docstrings"
  have "(?head @ [(indent @ ''    '') @ ''...'']) ! Suc (length decorator_list) =
      header_line unparse is_async name [] returns indent"
    by (simp add: stub_head_def nth_append)
  then show ?thesis
    using sig stub_function_lines_eq [OF sig] by (simp add: header_line_def)
qed

theorem empty_parameter_list_witness:
  "format_arguments id no_arguments = Inr [] \<and>
   (\<exists>lines.
      stub_function_lines id (FunctionDef False ''name'' 1 2 [] no_arguments None [])
        ''m.py'' [] True = Inr lines \<and>
      lines ! 1 = ''def name():'')"
  using empty_parameter_list [of no_arguments id False "''name''" 1 2 "[]" None "[]" "''m.py''"
      "[]" True]
  by (simp add: no_arguments_def)

section \<open>Properties of the Docstring Formatter\<close>

lemma split_nl_not_empty: "split_nl s \<noteq> []"
  by (induction s) (simp_all add: Let_def)

lemma hd_split_nl: "hd (split_nl s) = first_line s"
  by (induction s) (simp_all add: Let_def first_line_def)

lemma length_split_nl: "length (split_nl s) = Suc (count_list s NL)"
proof (induction s)
  case Nil
  then show ?case by simp
next
  case (Cons c cs)
  have "length (tl (split_nl cs)) = count_list cs NL"
    using Cons.IH by simp
  then show ?case using Cons.IH by (simp add: Let_def)
qed

lemma single_line_iff: "length (split_nl s) = Suc 0 \<longleftrightarrow> NL \<notin> set s"
  by (simp add: length_split_nl count_list_0_iff)

lemma first_line_append_NL: "NL \<notin> set a \<Longrightarrow> first_line (a @ NL # t) = a"
  by (auto simp: first_line_def takeWhile_tail)

lemma first_line_no_NL: "NL \<notin> set (first_line s)"
  unfolding first_line_def using set_takeWhileD [of NL "\<lambda>c. c \<noteq> NL" s] by blast

lemma first_line_single: "NL \<notin> set s \<Longrightarrow> first_line s = s"
  by (auto simp: first_line_def)

lemma NL_not_in_TQ: "NL \<notin> set TQ"
  by (simp add: TQ_def DQ_def NL_def)

lemma format_docstring_single:
  "NL \<notin> set doc \<Longrightarrow> format_docstring doc indent = (indent @ TQ @ doc @ TQ) @ NL # []"
  by (simp add: format_docstring_def single_line_iff)

lemma format_docstring_multi:
  assumes "NL \<in> set doc"
  shows "\<exists>t. format_docstring doc indent = (indent @ TQ @ first_line doc) @ NL # t"
proof -
  obtain t where t: "docstring_loop indent (tl (split_nl doc))
      (indent @ TQ @ first_line doc @ [NL]) = (indent @ TQ @ first_line doc @ [NL]) @ t"
    using docstring_loop_extends by blast
  have "length (split_nl doc) \<noteq> Suc 0" using assms by (simp add: single_line_iff)
  then show ?thesis
    by (simp add: format_docstring_def Let_def t hd_split_nl)
qed

lemma first_line_format_docstring:
  assumes "NL \<notin> set indent"
  shows "first_line (format_docstring doc indent) =
     indent @ TQ @ first_line doc @ (if NL \<in> set doc then [] else TQ)"
proof (cases "NL \<in> set doc")
  case True
  obtain t where t: "format_docstring doc indent = (indent @ TQ @ first_line doc) @ NL # t"
    using format_docstring_multi [OF True] by blast
  have "NL \<notin> set (indent @ TQ @ first_line doc)"
    using assms NL_not_in_TQ first_line_no_NL [of doc] by simp
  then have "first_line ((indent @ TQ @ first_line doc) @ NL # t) = indent @ TQ @ first_line doc"
    by (rule first_line_append_NL)
  then show ?thesis
    unfolding t using True by simp
next
  case False
  have "NL \<notin> set (indent @ TQ @ doc @ TQ)"
    using assms NL_not_in_TQ False by simp
  then have "first_line ((indent @ TQ @ doc @ TQ) @ NL # []) = indent @ TQ @ doc @ TQ"
    by (rule first_line_append_NL)
  then show ?thesis
    unfolding format_docstring_single [OF False] using False
    by (simp add: first_line_single)
qed

lemma NL_in_format_docstring: "NL \<in> set (format_docstring doc indent)"
proof (cases "NL \<in> set doc")
  case True
  then show ?thesis using format_docstring_multi [OF True, of indent] by auto
next
  case False
  then show ?thesis by (simp add: format_docstring_single)
qed

text \<open>
  Claim C3, as the specification states it, fails: the formatter applied to its own output
  does not give that output back. The block for the docstring \<^verbatim>\<open>a\nb\<close> at an indent of
  two spaces is a counterexample.
\<close>

theorem format_docstring_twice_differs:
  "format_docstring (format_docstring (''a'' @ [NL] @ ''b'') ''  '') ''  '' \<noteq>
   format_docstring (''a'' @ [NL] @ ''b'') ''  ''"
  by code_simp

text \<open>
  Claim C3, amended. The formatter is not idempotent and makes no attempt to recognise a
  block it has already formatted: for every docstring and every indent without a line
  break, the first line of the output is the indent, an opening triple-quote and the first
  line of the input (closed by a triple-quote when the input is a single line), so that
  formatting a formatted block again always gives a different block, quoted and indented
  once more.
\<close>

theorem format_docstring_wraps_again:
  assumes "NL \<notin> set indent"
  shows "first_line (format_docstring doc indent) =
           indent @ TQ @ first_line doc @ (if NL \<in> set doc then [] else TQ) \<and>
         format_docstring (format_docstring doc indent) indent \<noteq> format_docstring doc indent"
proof -
  let ?y = "format_docstring doc indent"
  have "first_line (format_docstring ?y indent) = indent @ TQ @ first_line ?y"
    using first_line_format_docstring [OF assms, of ?y] NL_in_format_docstring [of doc indent]
    by simp
  then have "length (first_line (format_docstring ?y indent)) \<noteq> length (first_line ?y)"
    by (simp add: TQ_def)
  then have "format_docstring ?y indent \<noteq> ?y" by auto
  then show ?thesis using first_line_format_docstring [OF assms, of doc] by simp
qed

theorem format_docstring_wraps_again_witness:
  "first_line (format_docstring (''a'' @ [NL] @ ''b'') ''  '') = ''  '' @ TQ @ ''a'' \<and>
   format_docstring (format_docstring (''a'' @ [NL] @ ''b'') ''  '') ''  '' \<noteq>
   format_docstring (''a'' @ [NL] @ ''b'') ''  ''"
proof -
  have "NL \<notin> set ''  ''" by (simp add: NL_def)
  from format_docstring_wraps_again [OF this, of "''a'' @ [NL] @ ''b''"]
  show ?thesis by (simp add: first_line_def NL_def)
qed

text \<open>
  Claim C4 fails on the program. The test for an existing closing quote looks only at the
  last three characters of the block stripped on the right, so it takes the opening
  triple-quote for a closing one when nothing but blank lines follows an empty first line:
  for the docstring that is a single line break (the literal \<^verbatim>\<open>"""\n"""\<close>) no closing line
  is appended and the block is the opening quotes followed by an empty line. It also takes
  a last line that ends in three quotes after other text for a closing line.
\<close>

theorem format_docstring_closing_missing:
  "format_docstring [NL] ''    '' = ''    '' @ TQ @ [NL, NL] \<and>
   \<not> closes_on_own_line (format_docstring [NL] ''    '') ''    '' \<and>
   format_docstring (''a'' @ [NL] @ ''b'' @ TQ) ''    '' =
     ''    '' @ TQ @ ''a'' @ [NL] @ ''    b'' @ TQ @ [NL] \<and>
   \<not> closes_on_own_line (format_docstring (''a'' @ [NL] @ ''b'' @ TQ) ''    '') ''    ''"
  by code_simp

section \<open>Properties of private filtering\<close>

lemma startswith_prefix: "startswith s p \<longleftrightarrow> prefix p s"
proof
  assume "startswith s p"
  then have "s = p @ drop (length p) s"
    using append_take_drop_id [of "length p" s] by (simp add: startswith_def)
  then show "prefix p s" by (metis prefixI)
next
  assume "prefix p s"
  then show "startswith s p" by (auto simp: startswith_def prefix_def)
qed

lemma endswith_suffix: "endswith s p \<longleftrightarrow> suffix p s"
proof
  assume "endswith s p"
  then have "s = take (length s - length p) s @ p"
    using append_take_drop_id [of "length s - length p" s] by (simp add: endswith_def)
  then show "suffix p s" by (metis suffixI)
next
  assume "suffix p s"
  then show "endswith s p" by (auto simp: endswith_def suffix_def)
qed

lemma class_body_loop_step:
  "class_body_loop unparse get_source_segment source source_file body_indent
       include_docstrings include_private first (child # rest) st =
     (case class_child unparse get_source_segment source source_file body_indent
             include_docstrings include_private child st of
        Inl e \<Rightarrow> Inl e
      | Inr st' \<Rightarrow>
          class_body_loop unparse get_source_segment source source_file body_indent
            include_docstrings include_private False rest st')"
  by (cases child) (simp_all add: class_child_def)

lemma class_body_loop_first:
  "class_body_loop unparse get_source_segment source source_file body_indent
       include_docstrings include_private first body st =
   class_body_loop unparse get_source_segment source source_file body_indent
       include_docstrings include_private first' body st"
  by (cases body) (simp_all only: class_body_loop.simps(1) class_body_loop_step)

lemma class_child_filtered_out:
  "filtered_out child \<Longrightarrow>
   class_child unparse get_source_segment source source_file body_indent
     include_docstrings False child st = Inr st"
  by (cases child) (simp_all add: class_child_def filtered_out_def)

lemma class_body_loop_filter:
  "class_body_loop unparse get_source_segment source source_file body_indent
       include_docstrings False first body st =
   class_body_loop unparse get_source_segment source source_file body_indent
       include_docstrings False first (filter (\<lambda>c. \<not> filtered_out c) body) st"
proof (induction body arbitrary: first st)
  case Nil
  then show ?case by simp
next
  case (Cons child rest)
  show ?case
  proof (cases "filtered_out child")
    case True
    have "class_body_loop unparse get_source_segment source source_file body_indent
        include_docstrings False first (child # rest) st =
      class_body_loop unparse get_source_segment source source_file body_indent
        include_docstrings False False rest st"
      by (simp only: class_body_loop_step class_child_filtered_out [OF True] sum.case)
    also have "\<dots> = class_body_loop unparse get_source_segment source source_file body_indent
        include_docstrings False False (filter (\<lambda>c. \<not> filtered_out c) rest) st"
      by (rule Cons.IH)
    also have "\<dots> = class_body_loop unparse get_source_segment source source_file body_indent
        include_docstrings False first (filter (\<lambda>c. \<not> filtered_out c) rest) st"
      by (rule class_body_loop_first)
    finally show ?thesis using True by simp
  next
    case False
    then have "filter (\<lambda>c. \<not> filtered_out c) (child # rest) =
        child # filter (\<lambda>c. \<not> filtered_out c) rest"
      by simp
    then show ?thesis
      by (simp only: class_body_loop_step Cons.IH)
  qed
qed

lemma class_child_grows:
  "class_child unparse get_source_segment source source_file body_indent
     include_docstrings include_private child st = Inr st' \<Longrightarrow> set (fst st) \<subseteq> set (fst st')"
  by (cases child) (auto simp: class_child_def split: if_splits sum.splits)

lemma class_body_loop_grows:
  "class_body_loop unparse get_source_segment source source_file body_indent
     include_docstrings include_private first body st = Inr st' \<Longrightarrow>
   set (fst st) \<subseteq> set (fst st')"
proof (induction body arbitrary: first st)
  case Nil
  then show ?case by simp
next
  case (Cons child rest)
  from Cons.prems obtain st1 where
    1: "class_child unparse get_source_segment source source_file body_indent
          include_docstrings include_private child st = Inr st1" and
    2: "class_body_loop unparse get_source_segment source source_file body_indent
          include_docstrings include_private False rest st1 = Inr st'"
    by (auto simp only: class_body_loop_step split: sum.splits)
  show ?case
    using class_child_grows [OF 1] Cons.IH [OF 2] by blast
qed

lemma class_child_member:
  assumes "\<not> filtered_out child"
      and "member_stub unparse get_source_segment source source_file body_indent
             include_docstrings False child = Some (Inr s)"
  shows "class_child unparse get_source_segment source source_file body_indent
           include_docstrings False child st = Inr (fst st @ [[]] @ [s], True)"
  using assms
  by (cases child) (simp_all add: class_child_def member_stub_def filtered_out_def)

lemma class_body_loop_keeps:
  assumes "class_body_loop unparse get_source_segment source source_file body_indent
       include_docstrings False first body st = Inr st'"
      and "child \<in> set body"
      and "\<not> filtered_out child"
      and "member_stub unparse get_source_segment source source_file body_indent
             include_docstrings False child = Some (Inr s)"
  shows "s \<in> set (fst st')"
  using assms(1,2)
proof (induction body arbitrary: first st)
  case Nil
  then show ?case by simp
next
  case (Cons c rest)
  from Cons.prems(1) obtain st1 where
    1: "class_child unparse get_source_segment source source_file body_indent
          include_docstrings False c st = Inr st1" and
    2: "class_body_loop unparse get_source_segment source source_file body_indent
          include_docstrings False False rest st1 = Inr st'"
    by (auto simp only: class_body_loop_step split: sum.splits)
  show ?case
  proof (cases "c = child")
    case True
    then have "s \<in> set (fst st1)"
      using 1 class_child_member [OF assms(3,4), of st] by auto
    then show ?thesis using class_body_loop_grows [OF 2] by blast
  next
    case False
    then have "child \<in> set rest" using Cons.prems(2) by simp
    then show ?thesis using Cons.IH [OF 2] by blast
  qed
qed

lemma class_header_cong:
  "get_docstring body' = get_docstring body \<Longrightarrow>
   class_header unparse name lineno end_lineno decorator_list bases keywords body'
     source_file indent include_docstrings =
   class_header unparse name lineno end_lineno decorator_list bases keywords body
     source_file indent include_docstrings"
  by (simp add: class_header_def)

lemma stub_class_filter:
  "stub_class unparse get_source_segment
       (ClassDef name lineno end_lineno decorator_list bases keywords body)
       source source_file indent include_docstrings False =
     (case class_body_loop unparse get_source_segment source source_file (indent @ ''    '')
             include_docstrings False True (filter (\<lambda>c. \<not> filtered_out c) body)
             (class_header unparse name lineno end_lineno decorator_list bases keywords body
                source_file indent include_docstrings) of
        Inl e \<Rightarrow> Inl e
      | Inr st \<Rightarrow>
          Inr (join [NL]
                 (if \<not> snd st then fst st @ [(indent @ ''    '') @ ''...''] else fst st)))"
proof -
  have "class_body_loop unparse get_source_segment source source_file (indent @ ''    '')
      include_docstrings False True body
      (class_header unparse name lineno end_lineno decorator_list bases keywords body
         source_file indent include_docstrings) =
    class_body_loop unparse get_source_segment source source_file (indent @ ''    '')
      include_docstrings False True (filter (\<lambda>c. \<not> filtered_out c) body)
      (class_header unparse name lineno end_lineno decorator_list bases keywords body
         source_file indent include_docstrings)"
    by (rule class_body_loop_filter)
  then show ?thesis by (simp add: stub_class.simps)
qed

lemma stub_class_without_private:
  assumes "get_docstring (filter (\<lambda>c. \<not> filtered_out c) body) = get_docstring body"
  shows "stub_class unparse get_source_segment
       (ClassDef name lineno end_lineno decorator_list bases keywords body)
       source source_file indent include_docstrings False =
     stub_class unparse get_source_segment
       (ClassDef name lineno end_lineno decorator_list bases keywords
          (filter (\<lambda>c. \<not> filtered_out c) body))
       source source_file indent include_docstrings False"
  unfolding stub_class_filter
  by (simp add: stub_class.simps class_header_cong [OF assms])

lemma stub_class_keeps:
  assumes "stub_class unparse get_source_segment
       (ClassDef name lineno end_lineno decorator_list bases keywords body)
       source source_file indent include_docstrings False = Inr out"
      and "child \<in> set body"
      and "\<not> filtered_out child"
      and "member_stub unparse get_source_segment source source_file (indent @ ''    '')
             include_docstrings False child = Some (Inr s)"
  shows "\<exists>lines. out = join [NL] lines \<and> s \<in> set lines"
proof -
  from assms(1) obtain st' where
    loop: "class_body_loop unparse get_source_segment source source_file (indent @ ''    '')
        include_docstrings False True body
        (class_header unparse name lineno end_lineno decorator_list bases keywords body
           source_file indent include_docstrings) = Inr st'" and
    out: "out = join [NL]
        (if \<not> snd st' then fst st' @ [(indent @ ''    '') @ ''...''] else fst st')"
    by (auto simp: stub_class.simps split: sum.splits)
  have "s \<in> set (fst st')"
    using loop assms(2,3,4) by (rule class_body_loop_keeps)
  then have "s \<in> set (if \<not> snd st' then fst st' @ [(indent @ ''    '') @ ''...''] else fst st')"
    by simp
  with out show ?thesis by blast
qed

text \<open>
  Claim C5. A name is private iff it starts with an underscore and is not a dunder, that
  is, it does not both start and end with two underscores; so \<^verbatim>\<open>_helper\<close> is private
  and \<^verbatim>\<open>__init__\<close>, \<^verbatim>\<open>__eq__\<close> and \<^verbatim>\<open>helper\<close> are not.

  With private filtering enabled, the loop over a class body gives what it gives on the
  body without its private functions and classes, and \<^verbatim>\<open>stub_class\<close> returns what the
  loop gives on the body without them: a private member leaves no trace in the output.
  When the docstring of the class is the same without them (it always is unless the first
  statement of the body is a private member followed by a bare string), the stub of the
  class is the stub of the class with its private members deleted. Every member of the
  body that is a function or a class with a name that is not private (a dunder or a name
  without a leading underscore) is retained: its stub is one of the lines that the loop
  returns and that \<^verbatim>\<open>stub_class\<close> joins into its output.
\<close>

theorem private_members_filtered:
  "(is_private name \<longleftrightarrow> prefix ''_'' name \<and> \<not> (prefix ''__'' name \<and> suffix ''__'' name)) \<and>
   is_private ''_helper'' \<and> \<not> is_private ''__init__'' \<and> \<not> is_private ''__eq__'' \<and>
   \<not> is_private ''helper'' \<and>
   class_body_loop unparse get_source_segment source source_file body_indent
       include_docstrings False first body st =
     class_body_loop unparse get_source_segment source source_file body_indent
       include_docstrings False first (filter (\<lambda>c. \<not> filtered_out c) body) st \<and>
   (\<forall>child s st'.
      class_body_loop unparse get_source_segment source source_file body_indent
          include_docstrings False first body st = Inr st' \<and>
      child \<in> set body \<and> \<not> filtered_out child \<and>
      member_stub unparse get_source_segment source source_file body_indent
          include_docstrings False child = Some (Inr s) \<longrightarrow>
      s \<in> set (fst st')) \<and>
   stub_class unparse get_source_segment
       (ClassDef cname lineno end_lineno decorator_list bases keywords body)
       source source_file indent include_docstrings False =
     (case class_body_loop unparse get_source_segment source source_file (indent @ ''    '')
             include_docstrings False True (filter (\<lambda>c. \<not> filtered_out c) body)
             (class_header unparse cname lineno end_lineno decorator_list bases keywords body
                source_file indent include_docstrings) of
        Inl e \<Rightarrow> Inl e
      | Inr st \<Rightarrow>
          Inr (join [NL]
                 (if \<not> snd st then fst st @ [(indent @ ''    '') @ ''...''] else fst st))) \<and>
   (get_docstring (filter (\<lambda>c. \<not> filtered_out c) body) = get_docstring body \<longrightarrow>
      stub_class unparse get_source_segment
          (ClassDef cname lineno end_lineno decorator_list bases keywords body)
          source source_file indent include_docstrings False =
        stub_class unparse get_source_segment
          (ClassDef cname lineno end_lineno decorator_list bases keywords
             (filter (\<lambda>c. \<not> filtered_out c) body))
          source source_file indent include_docstrings False) \<and>
   (\<forall>out child s.
      stub_class unparse get_source_segment
          (ClassDef cname lineno end_lineno decorator_list bases keywords body)
          source source_file indent include_docstrings False = Inr out \<and>
      child \<in> set body \<and> \<not> filtered_out child \<and>
      member_stub unparse get_source_segment source source_file (indent @ ''    '')
          include_docstrings False child = Some (Inr s) \<longrightarrow>
      (\<exists>lines. out = join [NL] lines \<and> s \<in> set lines))"
proof -
  have a: "is_private name \<longleftrightarrow>
      prefix ''_'' name \<and> \<not> (prefix ''__'' name \<and> suffix ''__'' name)"
    by (simp add: is_private_def startswith_prefix endswith_suffix)
  have b: "is_private ''_helper''" "\<not> is_private ''__init__''" "\<not> is_private ''__eq__''"
    "\<not> is_private ''helper''"
    by (simp_all add: is_private_def startswith_def endswith_def)
  have c: "\<forall>child s st'.
      class_body_loop unparse get_source_segment source source_file body_indent
          include_docstrings False first body st = Inr st' \<and>
      child \<in> set body \<and> \<not> filtered_out child \<and>
      member_stub unparse get_source_segment source source_file body_indent
          include_docstrings False child = Some (Inr s) \<longrightarrow>
      s \<in> set (fst st')"
  proof (intro allI impI, elim conjE)
    fix child s st'
    assume "class_body_loop unparse get_source_segment source source_file body_indent
        include_docstrings False first body st = Inr st'"
      and "child \<in> set body" and "\<not> filtered_out child"
      and "member_stub unparse get_source_segment source source_file body_indent
          include_docstrings False child = Some (Inr s)"
    then show "s \<in> set (fst st')" by (rule class_body_loop_keeps)
  qed
  have d: "get_docstring (filter (\<lambda>c. \<not> filtered_out c) body) = get_docstring body \<longrightarrow>
      stub_class unparse get_source_segment
          (ClassDef cname lineno end_lineno decorator_list bases keywords body)
          source source_file indent include_docstrings False =
        stub_class unparse get_source_segment
          (ClassDef cname lineno end_lineno decorator_list bases keywords
             (filter (\<lambda>c. \<not> filtered_out c) body))
          source source_file indent include_docstrings False"
    using stub_class_without_private by blast
  have e: "\<forall>out child s.
      stub_class unparse get_source_segment
          (ClassDef cname lineno end_lineno decorator_list bases keywords body)
          source source_file indent include_docstrings False = Inr out \<and>
      child \<in> set body \<and> \<not> filtered_out child \<and>
      member_stub unparse get_source_segment source source_file (indent @ ''    '')
          include_docstrings False child = Some (Inr s) \<longrightarrow>
      (\<exists>lines. out = join [NL] lines \<and> s \<in> set lines)"
  proof (intro allI impI, elim conjE)
    fix out child s
    assume "stub_class unparse get_source_segment
          (ClassDef cname lineno end_lineno decorator_list bases keywords body)
          source source_file indent include_docstrings False = Inr out"
      and "child \<in> set body" and "\<not> filtered_out child"
      and "member_stub unparse get_source_segment source source_file (indent @ ''    '')
          include_docstrings False child = Some (Inr s)"
    then show "\<exists>lines. out = join [NL] lines \<and> s \<in> set lines" by (rule stub_class_keeps)
  qed
  show ?thesis
    by (intro conjI a b class_body_loop_filter c stub_class_filter d e)
qed

text \<open>
  The witness: the stub of the example class with private filtering enabled is the stub
  of the class without \<^verbatim>\<open>_helper\<close> and \<^verbatim>\<open>_Hidden\<close>, and it is the text shown.
\<close>

theorem private_members_filtered_witness:
  "stub_class id (\<lambda>source n. None) example_class [] ''m.py'' [] True False =
     stub_class id (\<lambda>source n. None)
       (ClassDef ''C'' 1 9 [] [] []
          [example_method ''__init__'', example_method ''__eq__'', example_method ''helper'',
           example_nested ''Inner''])
       [] ''m.py'' [] True False \<and>
   stub_class id (\<lambda>source n. None) example_class [] ''m.py'' [] True False =
     Inr (join [NL]
            [''# m.py:1-9'', ''class C:'',
             [], ''    # m.py:2-3'', ''    def __init__(self):'', ''        ...'',
             [], ''    # m.py:2-3'', ''    def __eq__(self):'', ''        ...'',
             [], ''    # m.py:2-3'', ''    def helper(self):'', ''        ...'',
             [], ''    # m.py:4-5'', ''    class Inner:'', ''        ...''])"
proof -
  let ?body = "[example_method ''_helper'', example_method ''__init__'',
      example_method ''__eq__'', example_method ''helper'', example_nested ''_Hidden'',
      example_nested ''Inner'']"
  let ?kept = "[example_method ''__init__'', example_method ''__eq__'',
      example_method ''helper'', example_nested ''Inner'']"
  have kept: "filter (\<lambda>c. \<not> filtered_out c) ?body = ?kept"
    by (simp add: filtered_out_def example_method_def example_nested_def is_private_def
        startswith_def endswith_def)
  have doc: "get_docstring (filter (\<lambda>c. \<not> filtered_out c) ?body) = get_docstring ?body"
    unfolding kept by (simp add: example_method_def)
  note inst = private_members_filtered [of "''_helper''" id "\<lambda>source n. None" "[]" "''m.py''"
      "''    ''" True True ?body "([], False)" "''C''" 1 9 "[]" "[]" "[]" "[]"]
  have "stub_class id (\<lambda>source n. None) (ClassDef ''C'' 1 9 [] [] [] ?body) [] ''m.py'' []
      True False =
    stub_class id (\<lambda>source n. None)
      (ClassDef ''C'' 1 9 [] [] [] (filter (\<lambda>c. \<not> filtered_out c) ?body)) [] ''m.py'' []
      True False"
    by (rule inst [THEN conjunct2, THEN conjunct2, THEN conjunct2, THEN conjunct2,
          THEN conjunct2, THEN conjunct2, THEN conjunct2, THEN conjunct2, THEN conjunct1,
          THEN mp, OF doc])
  then have first: "stub_class id (\<lambda>source n. None) example_class [] ''m.py'' [] True False =
    stub_class id (\<lambda>source n. None) (ClassDef ''C'' 1 9 [] [] [] ?kept) [] ''m.py'' []
      True False"
    unfolding kept by (simp add: example_class_def)
  have "stub_class id (\<lambda>source n. None) (ClassDef ''C'' 1 9 [] [] [] ?kept) [] ''m.py'' []
      True False =
     Inr (join [NL]
            [''# m.py:1-9'', ''class C:'',
             [], ''    # m.py:2-3'', ''    def __init__(self):'', ''        ...'',
             [], ''    # m.py:2-3'', ''    def __eq__(self):'', ''        ...'',
             [], ''    # m.py:2-3'', ''    def helper(self):'', ''        ...'',
             [], ''    # m.py:4-5'', ''    class Inner:'', ''        ...''])"
    by code_simp
  with first show ?thesis by simp
qed

section \<open>Properties of the Tree Walker\<close>

lemma the_key_eq:
  "p \<noteq> [] \<Longrightarrow> sort_key_path p = Inr (the_key p)"
  by (simp add: the_key_def sort_key_path_def)

lemma keyed_eq: "[] \<notin> set files \<Longrightarrow> keyed files = Inr (map (\<lambda>p. (the_key p, p)) files)"
  by (induction files) (auto simp: the_key_eq)

lemma sorted_py_files_eq:
  "[] \<notin> set files \<Longrightarrow>
   sorted_py_files files = Inr (map snd (sort_key fst (map (\<lambda>p. (the_key p, p)) files)))"
  by (simp add: sorted_py_files_def keyed_eq)

lemma sorted_py_files_sorted:
  assumes "[] \<notin> set files"
  shows "\<exists>r. sorted_py_files files = Inr r \<and> mset r = mset files \<and> sorted (map the_key r)"
proof -
  let ?kps = "map (\<lambda>p. (the_key p, p)) files"
  let ?r = "map snd (sort_key fst ?kps)"
  have "mset ?r = image_mset snd (mset (sort_key fst ?kps))" by simp
  also have "\<dots> = image_mset snd (mset ?kps)" by (simp only: mset_sort)
  also have "\<dots> = mset files" by (simp add: image_mset.compositionality comp_def)
  finally have m: "mset ?r = mset files" .
  have "\<forall>x\<in>set (sort_key fst ?kps). the_key (snd x) = fst x" by auto
  then have "map the_key ?r = map fst (sort_key fst ?kps)" by simp
  then have s: "sorted (map the_key ?r)" by (simp only: sorted_sort_key)
  show ?thesis using sorted_py_files_eq [OF assms] m s by blast
qed

lemma sorted_by_key_unique:
  assumes "sorted (map f r)" and "mset r = mset e" and "sorted (map f e)"
      and "distinct (map f e)"
  shows "r = e"
proof -
  have m: "mset (map f r) = mset (map f e)" using assms(2) by simp
  then have "distinct (map f r)" using assms(4) mset_eq_imp_distinct_iff by blast
  moreover have "set (map f r) = set (map f e)" using m by (rule mset_eq_setD)
  ultimately have eq: "map f r = map f e"
    using assms(1,3,4) by (intro sorted_distinct_set_unique)
  have "set r = set e" using assms(2) by (rule mset_eq_setD)
  moreover have "inj_on f (set e)" using assms(4) by (simp add: distinct_map)
  ultimately have "inj_on f (set r \<union> set e)" by simp
  then show ?thesis using eq by (simp add: inj_on_map_eq_map)
qed

lemma example_keys:
  "map the_key example_order =
     [[[CHR 0x00]], [''a.py''], [''b.py''], [''sub'', [CHR 0x00]], [''sub'', ''c.py'']]"
  by (simp add: example_order_def the_key_def sort_key_path_def)

lemma example_keys_sorted: "sorted (map the_key example_order)"
  unfolding example_keys by code_simp

lemma example_keys_distinct: "distinct (map the_key example_order)"
  unfolding example_keys by simp

lemma example_same_files: "mset example_found = mset example_order"
  by (simp add: example_found_def example_order_def)

lemma example_sorted:
  assumes "mset found = mset example_found"
  shows "sorted_py_files found = Inr example_order"
proof -
  have "set found = set example_found" using assms by (rule mset_eq_setD)
  then have "[] \<notin> set found" by (simp add: example_found_def)
  then obtain r where r: "sorted_py_files found = Inr r" "mset r = mset found"
      "sorted (map the_key r)"
    using sorted_py_files_sorted by blast
  have "mset r = mset example_order" using r(2) assms example_same_files by simp
  with r(3) have "r = example_order"
    using example_keys_sorted example_keys_distinct by (rule sorted_by_key_unique)
  with r(1) show ?thesis by simp
qed

lemma sections_loop_filter:
  "\<forall>p\<in>set ps. readable stub root read_text p \<Longrightarrow>
   sections_loop stub root read_text ps sections =
     Inr (sections @
          map (section_text stub root read_text) (filter (has_section stub root read_text) ps))"
proof (induction ps arbitrary: sections)
  case Nil
  then show ?case by simp
next
  case (Cons p ps)
  from Cons.prems have p: "readable stub root read_text p"
    and ps: "\<forall>q\<in>set ps. readable stub root read_text q" by simp_all
  from p obtain source where source: "read_text p = Inr source"
    by (auto simp: readable_def split: sum.splits)
  show ?case
  proof (cases "strip source = []")
    case True
    then show ?thesis
      using source Cons.IH [OF ps]
      by (simp add: Let_def has_section_def rel_label_def)
  next
    case False
    with p source obtain body where body: "stub source (rel_label root p) = Inr body"
      by (auto simp: readable_def split: sum.splits)
    show ?thesis
    proof (cases "strip body = []")
      case True
      then show ?thesis
        using source False body Cons.IH [OF ps]
        by (simp add: Let_def has_section_def rel_label_def [symmetric])
    next
      case nonblank: False
      then show ?thesis
        using source False body Cons.IH [OF ps]
        by (simp add: Let_def has_section_def section_text_def rel_label_def [symmetric])
    qed
  qed
qed

lemma has_section_readable:
  "has_section stub root read_text p \<Longrightarrow> readable stub root read_text p"
  by (auto simp: has_section_def readable_def split: sum.splits)

lemma sections_loop_all:
  assumes "\<forall>p\<in>set ps. has_section stub root read_text p"
  shows "sections_loop stub root read_text ps sections =
     Inr (sections @ map (section_text stub root read_text) ps)"
proof -
  have "\<forall>p\<in>set ps. readable stub root read_text p"
    using assms has_section_readable by blast
  moreover have "filter (has_section stub root read_text) ps = ps"
    using assms by (simp add: filter_id_conv)
  ultimately show ?thesis using sections_loop_filter [of ps stub root read_text sections] by simp
qed

lemma sorted_positions:
  assumes "sorted (map f r)" and "i < length r" and "j < length r" and "f (r ! i) < f (r ! j)"
  shows "i < j"
proof (rule ccontr)
  assume "\<not> i < j"
  then have "j \<le> i" by simp
  with assms(1) have "map f r ! j \<le> map f r ! i"
    by (rule sorted_nth_mono) (simp add: assms(2))
  then show False using assms(2,3,4) by simp
qed

lemma walker_output:
  assumes "[] \<notin> set files"
      and "\<forall>p\<in>set files.
             readable
               (\<lambda>source rel. stub_module parse unparse get_source_segment source rel
                  include_docstrings include_private)
               root read_text p"
  shows "\<exists>r. sorted_py_files files = Inr r \<and> mset r = mset files \<and>
           sorted (map the_key r) \<and>
           (\<forall>i j. i < length r \<and> j < length r \<and> the_key (r ! i) < the_key (r ! j) \<longrightarrow> i < j) \<and>
           stub_package parse unparse get_source_segment (Directory root files read_text)
               include_docstrings include_private =
             Inr (join [NL, NL]
                    (map (section_text
                            (\<lambda>source rel. stub_module parse unparse get_source_segment source rel
                               include_docstrings include_private)
                            root read_text)
                       (filter (has_section
                                  (\<lambda>source rel. stub_module parse unparse get_source_segment
                                     source rel include_docstrings include_private)
                                  root read_text)
                          r)))"
proof -
  let ?stub = "\<lambda>source rel. stub_module parse unparse get_source_segment source rel
      include_docstrings include_private"
  obtain r where r: "sorted_py_files files = Inr r" "mset r = mset files"
      "sorted (map the_key r)"
    using sorted_py_files_sorted [OF assms(1)] by blast
  have "set r = set files" using r(2) by (rule mset_eq_setD)
  then have "\<forall>p\<in>set r. readable ?stub root read_text p" using assms(2) by simp
  then have "sections_loop ?stub root read_text r [] =
      Inr ([] @ map (section_text ?stub root read_text)
                  (filter (has_section ?stub root read_text) r))"
    by (rule sections_loop_filter)
  then have out: "stub_package parse unparse get_source_segment
      (Directory root files read_text) include_docstrings include_private =
      Inr (join [NL, NL] (map (section_text ?stub root read_text)
                            (filter (has_section ?stub root read_text) r)))"
    by (simp add: stub_package_def r(1))
  have pos: "\<forall>i j. i < length r \<and> j < length r \<and> the_key (r ! i) < the_key (r ! j) \<longrightarrow> i < j"
    using sorted_positions [OF r(3)] by blast
  show ?thesis using r out pos by blast
qed

lemma append_less_append: "(d @ x < d @ (y :: string list)) = (x < y)"
  by (induction d) simp_all

lemma initializer_key_least:
  assumes "n \<noteq> []" and "n \<noteq> [CHR 0x00]"
  shows "[[CHR 0x00]] < n # (ks :: string list)"
proof -
  obtain c cs where n: "n = c # cs" using assms(1) by (cases n) auto
  show ?thesis
  proof (cases "c = CHR 0x00")
    case True
    then have "cs \<noteq> []" using assms(2) n by simp
    then obtain c' cs' where "cs = c' # cs'" by (cases cs) auto
    then show ?thesis using True n by simp
  next
    case False
    have "of_char (CHR 0x00) = (0 :: nat)" by simp
    then have "of_char c \<noteq> (0 :: nat)"
      using False of_char_eq_iff [of c "CHR 0x00", where ?'a = nat] by auto
    then have "CHR 0x00 < c" by (simp add: less_char_def)
    then show ?thesis using n by simp
  qed
qed

lemma initializer_sorts_first:
  assumes "n \<noteq> []" and "n \<noteq> [CHR 0x00]" and "n # rest \<noteq> [''__init__.py'']"
  shows "the_key (d @ [''__init__.py'']) < the_key (d @ n # rest)"
proof -
  have init: "the_key (d @ [''__init__.py'']) = d @ [[CHR 0x00]]"
    by (simp add: the_key_def sort_key_path_def)
  have "\<exists>ks. the_key (d @ n # rest) = d @ n # ks"
  proof (cases "last (n # rest) = ''__init__.py''")
    case True
    then have "rest \<noteq> []" using assms(3) by auto
    then have "butlast (d @ n # rest) = d @ n # butlast rest"
      by (simp add: butlast_append)
    then show ?thesis using True by (simp add: the_key_def sort_key_path_def)
  next
    case False
    then show ?thesis by (simp add: the_key_def sort_key_path_def)
  qed
  then obtain ks where "the_key (d @ n # rest) = d @ n # ks" by blast
  then show ?thesis
    unfolding init using initializer_key_least [OF assms(1,2), of ks]
    by (simp only: append_less_append)
qed

lemma other_files_keep_path: "p \<noteq> [] \<Longrightarrow> last p \<noteq> ''__init__.py'' \<Longrightarrow> the_key p = p"
  by (simp add: the_key_def sort_key_path_def)

text \<open>
  Claim C2. Whatever the order in which the file system yields the five files
  \<^verbatim>\<open>pkg/__init__.py\<close>, \<^verbatim>\<open>pkg/b.py\<close>, \<^verbatim>\<open>pkg/a.py\<close>, \<^verbatim>\<open>pkg/sub/__init__.py\<close> and
  \<^verbatim>\<open>pkg/sub/c.py\<close>, the walker visits them in the order \<^verbatim>\<open>pkg/__init__.py\<close>,
  \<^verbatim>\<open>pkg/a.py\<close>, \<^verbatim>\<open>pkg/b.py\<close>, \<^verbatim>\<open>pkg/sub/__init__.py\<close>, \<^verbatim>\<open>pkg/sub/c.py\<close>, and when each
  of them has a section (its content and its projected body are not blank) the output is
  their sections in that order.

  In general, for every directory, whatever its name and whatever files are found in it
  (each with at least one path component and processed without an error), the output of
  \<^verbatim>\<open>stub_package\<close> is the sections, joined by an empty line, of a rearrangement \<open>r\<close> of the
  files found, less the files that have no section; \<open>r\<close> is sorted by the sort key, so a
  file whose key is below the key of another file comes before it. The key of the package
  initializer of a directory \<open>d\<close> is below the key of every other entry under \<open>d\<close> (a file
  \<open>n\<close>, or anything below a subdirectory \<open>n\<close>, for a name \<open>n\<close> that is not empty and is not
  the single character NUL), and every other file is its own key, a relative path being
  compared as the list of its components and each component character by character.
\<close>

theorem tree_walker_order:
  assumes "mset found = mset example_found"
      and "\<forall>p\<in>set example_found.
             has_section
               (\<lambda>source rel. stub_module parse unparse get_source_segment source rel
                  include_docstrings include_private)
               ''pkg'' read_text p"
  shows "sorted_py_files found = Inr example_order \<and>
         stub_package parse unparse get_source_segment (Directory ''pkg'' found read_text)
             include_docstrings include_private =
           Inr (join [NL, NL]
                  (map (section_text
                          (\<lambda>source rel. stub_module parse unparse get_source_segment source rel
                             include_docstrings include_private)
                          ''pkg'' read_text)
                     example_order)) \<and>
         ([] \<notin> set files \<longrightarrow>
            (\<exists>r. sorted_py_files files = Inr r \<and> mset r = mset files \<and>
                 sorted (map the_key r))) \<and>
         ([] \<notin> set files \<and>
          (\<forall>p\<in>set files.
             readable
               (\<lambda>source rel. stub_module parse unparse get_source_segment source rel
                  include_docstrings include_private)
               dir_name dir_read p) \<longrightarrow>
            (\<exists>r. sorted_py_files files = Inr r \<and> mset r = mset files \<and>
                 sorted (map the_key r) \<and>
                 (\<forall>i j. i < length r \<and> j < length r \<and> the_key (r ! i) < the_key (r ! j) \<longrightarrow>
                    i < j) \<and>
                 stub_package parse unparse get_source_segment
                     (Directory dir_name files dir_read) include_docstrings include_private =
                   Inr (join [NL, NL]
                          (map (section_text
                                  (\<lambda>source rel. stub_module parse unparse get_source_segment
                                     source rel include_docstrings include_private)
                                  dir_name dir_read)
                             (filter (has_section
                                        (\<lambda>source rel. stub_module parse unparse
                                           get_source_segment source rel include_docstrings
                                           include_private)
                                        dir_name dir_read)
                                r))))) \<and>
         (n \<noteq> [] \<and> n \<noteq> [CHR 0x00] \<and> n # rest \<noteq> [''__init__.py''] \<longrightarrow>
            the_key (d @ [''__init__.py'']) < the_key (d @ n # rest)) \<and>
         (p \<noteq> [] \<and> last p \<noteq> ''__init__.py'' \<longrightarrow> the_key p = p)"
proof -
  let ?stub = "\<lambda>source rel. stub_module parse unparse get_source_segment source rel
      include_docstrings include_private"
  have order: "sorted_py_files found = Inr example_order"
    using assms(1) by (rule example_sorted)
  have "set example_order = set example_found"
    using example_same_files mset_eq_setD by metis
  then have "\<forall>p\<in>set example_order. has_section ?stub ''pkg'' read_text p"
    using assms(2) by simp
  then have "sections_loop ?stub ''pkg'' read_text example_order [] =
      Inr ([] @ map (section_text ?stub ''pkg'' read_text) example_order)"
    by (rule sections_loop_all)
  then have out: "stub_package parse unparse get_source_segment
      (Directory ''pkg'' found read_text) include_docstrings include_private =
      Inr (join [NL, NL] (map (section_text ?stub ''pkg'' read_text) example_order))"
    by (simp add: stub_package_def order)
  have perm: "[] \<notin> set files \<longrightarrow>
      (\<exists>r. sorted_py_files files = Inr r \<and> mset r = mset files \<and> sorted (map the_key r))"
    using sorted_py_files_sorted [of files] by blast
  have general: "[] \<notin> set files \<and> (\<forall>p\<in>set files. readable ?stub dir_name dir_read p) \<longrightarrow>
      (\<exists>r. sorted_py_files files = Inr r \<and> mset r = mset files \<and>
           sorted (map the_key r) \<and>
           (\<forall>i j. i < length r \<and> j < length r \<and> the_key (r ! i) < the_key (r ! j) \<longrightarrow> i < j) \<and>
           stub_package parse unparse get_source_segment
               (Directory dir_name files dir_read) include_docstrings include_private =
             Inr (join [NL, NL]
                    (map (section_text ?stub dir_name dir_read)
                       (filter (has_section ?stub dir_name dir_read) r))))"
    using walker_output [of files parse unparse get_source_segment include_docstrings
        include_private dir_name dir_read]
    by blast
  have first: "n \<noteq> [] \<and> n \<noteq> [CHR 0x00] \<and> n # rest \<noteq> [''__init__.py''] \<longrightarrow>
      the_key (d @ [''__init__.py'']) < the_key (d @ n # rest)"
    using initializer_sorts_first [of n rest d] by blast
  have own: "p \<noteq> [] \<and> last p \<noteq> ''__init__.py'' \<longrightarrow> the_key p = p"
    using other_files_keep_path [of p] by blast
  show ?thesis
    by (intro conjI order out perm general first own)
qed

text \<open>
  The witness: the five files of the example, and a directory with the two files
  \<^verbatim>\<open>Z.py\<close> and \<^verbatim>\<open>__init__.py\<close>, where the initializer comes first although \<^verbatim>\<open>Z\<close>
  is below \<^verbatim>\<open>_\<close> in the order of the characters.
\<close>

theorem tree_walker_order_witness:
  "sorted_py_files example_found = Inr example_order \<and>
   stub_package (\<lambda>source. Inr [Import source]) id (\<lambda>source n. None)
       (Directory ''pkg'' example_found (\<lambda>p. Inr ''import os'')) True True =
     Inr (join [NL, NL]
            (map (\<lambda>p. ''# === '' @ join ''/'' (''pkg'' # p) @ '' ==='' @ [NL, NL] @ ''import os'')
               example_order)) \<and>
   stub_package (\<lambda>source. Inr [Import source]) id (\<lambda>source n. None)
       (Directory ''pkg'' [[''Z.py''], [''__init__.py'']] (\<lambda>p. Inr ''import os'')) True True =
     Inr (''# === pkg/__init__.py ==='' @ [NL, NL] @ ''import os'' @ [NL, NL] @
          ''# === pkg/Z.py ==='' @ [NL, NL] @ ''import os'')"
proof -
  let ?stub = "\<lambda>source rel. stub_module (\<lambda>source. Inr [Import source]) id (\<lambda>source n. None)
      source rel True True"
  let ?read = "\<lambda>p :: string list. Inr ''import os'' :: py_error + string"
  let ?two = "[[''Z.py''], [''__init__.py'']]"
  let ?expected = "[[''__init__.py''], [''Z.py'']]"
  have stub: "?stub ''import os'' rel = Inr ''import os''" for rel
    by (simp add: stub_module_def module_node_def segment_or_unparse_def)
  have blank: "strip ''import os'' \<noteq> []"
    by (simp add: strip_def rstrip_def isspace_def)
  have sect: "has_section ?stub ''pkg'' ?read q" for q
    using stub blank by (simp add: has_section_def)
  have h: "\<forall>q\<in>set example_found. has_section ?stub ''pkg'' ?read q"
    using sect by blast
  have sec: "section_text ?stub ''pkg'' ?read =
      (\<lambda>p. ''# === '' @ join ''/'' (''pkg'' # p) @ '' ==='' @ [NL, NL] @ ''import os'')"
    by (rule ext) (simp add: section_text_def rel_label_def stub)
  have all: "filter (has_section ?stub ''pkg'' ?read) xs = xs" for xs
    using sect by (simp add: filter_id_conv)
  have two: "[] \<notin> set ?two \<and> (\<forall>q\<in>set ?two. readable ?stub ''pkg'' ?read q)"
    using has_section_readable [OF sect] by simp
  note inst = tree_walker_order [OF refl h, of ?two "''pkg''" ?read "''x''" "[]" "[]" "[''x'']"]
  have five: "sorted_py_files example_found = Inr example_order"
    by (rule inst [THEN conjunct1])
  have five_out: "stub_package (\<lambda>source. Inr [Import source]) id (\<lambda>source n. None)
       (Directory ''pkg'' example_found ?read) True True =
     Inr (join [NL, NL] (map (section_text ?stub ''pkg'' ?read) example_order))"
    by (rule inst [THEN conjunct2, THEN conjunct1])
  have "\<exists>r. sorted_py_files ?two = Inr r \<and> mset r = mset ?two \<and>
      sorted (map the_key r) \<and>
      (\<forall>i j. i < length r \<and> j < length r \<and> the_key (r ! i) < the_key (r ! j) \<longrightarrow> i < j) \<and>
      stub_package (\<lambda>source. Inr [Import source]) id (\<lambda>source n. None)
          (Directory ''pkg'' ?two ?read) True True =
        Inr (join [NL, NL] (map (section_text ?stub ''pkg'' ?read)
                              (filter (has_section ?stub ''pkg'' ?read) r)))"
    by (rule inst [THEN conjunct2, THEN conjunct2, THEN conjunct2, THEN conjunct1, THEN mp,
          OF two])
  then obtain r where
    m: "mset r = mset ?two" and srt: "sorted (map the_key r)" and
    out: "stub_package (\<lambda>source. Inr [Import source]) id (\<lambda>source n. None)
        (Directory ''pkg'' ?two ?read) True True =
      Inr (join [NL, NL] (map (section_text ?stub ''pkg'' ?read)
                            (filter (has_section ?stub ''pkg'' ?read) r)))"
    by (elim exE conjE)
  have keys: "map the_key ?expected = [[[CHR 0x00]], [''Z.py'']]"
    by (simp add: the_key_def sort_key_path_def)
  have m': "mset r = mset ?expected" using m by simp
  have s': "sorted (map the_key ?expected)"
    unfolding keys by code_simp
  have d': "distinct (map the_key ?expected)"
    unfolding keys by simp
  have out': "stub_package (\<lambda>source. Inr [Import source]) id (\<lambda>source n. None)
        (Directory ''pkg'' ?two ?read) True True =
      Inr (join [NL, NL] (map (section_text ?stub ''pkg'' ?read) r))"
    using out by (simp only: all)
  have "r = ?expected"
    using srt m' s' d' by (rule sorted_by_key_unique)
  then have two_out: "stub_package (\<lambda>source. Inr [Import source]) id (\<lambda>source n. None)
        (Directory ''pkg'' ?two ?read) True True =
      Inr (''# === pkg/__init__.py ==='' @ [NL, NL] @ ''import os'' @ [NL, NL] @
           ''# === pkg/Z.py ==='' @ [NL, NL] @ ''import os'')"
    using out' by (simp add: sec)
  show ?thesis
    using five five_out two_out unfolding sec by (intro conjI)
qed

end
